theory Spec2Isabelle
  imports Main "HOL-Library.Word"
begin

section \<open>The world the script runs in\<close>

text \<open>
  \<^verbatim>\<open>build.py\<close> is a straight-line script: it runs an external build command through
  \<^verbatim>\<open>os.system\<close>, prints a message and leaves with \<^verbatim>\<open>exit(1)\<close> when the command's status
  is not zero, and otherwise opens \<^verbatim>\<open>build.zip\<close> for writing and adds five files to it
  with \<^verbatim>\<open>zip.write\<close>, inside a \<^verbatim>\<open>with\<close> statement.

  The filesystem is a partial map from paths to nodes. The keys are the path strings as
  the script writes them; the six paths of the script are pairwise different strings and
  are taken to name six different nodes. A path that is not mapped names nothing.

  The zip container format belongs to the standard library and is kept abstract: the
  content of a file is raw bytes, or a well-formed archive, given by its entries in the
  order of its central directory, or \<open>Damaged\<close>: what is left of an archive whose
  records and directory do not fit together. An entry holds the content stored for it
  (the script uses the default \<^verbatim>\<open>ZIP_STORED\<close>, which stores the bytes as they are).
\<close>

type_synonym path = string

datatype fdata = Raw "8 word list" | Zip "(string \<times> fdata) list" | Damaged

type_synonym entry = "string \<times> fdata"

text \<open>
  What \<^verbatim>\<open>zip.write\<close> meets at a path decides what it does, so a node carries it:
  \<^item> the error number of an \<^verbatim>\<open>OSError\<close> (\<open>ENOENT\<close> is \<^verbatim>\<open>FileNotFoundError\<close>, \<open>ENOTDIR\<close> is
    \<^verbatim>\<open>NotADirectoryError\<close>, \<open>EACCES\<close> is \<^verbatim>\<open>PermissionError\<close>);
  \<^item> the modification time of a file or directory, as far as the zip format cares: before
    1980, from 1980 to 2107, or after 2107 (local time);
  \<^item> for a regular file, whether it can be opened and copied: \<open>NoOpen\<close> when opening it
    for reading fails, \<open>ReadFault\<close> when reading fails after the given bytes were
    delivered, \<open>WriteFault\<close> when writing its entry into the archive fails;
  \<^item> for a directory, whether writing its entry into the archive fails;
  \<^item> \<open>NoStat\<close> for a path that \<^verbatim>\<open>os.stat\<close> cannot examine (a parent is a regular file, or
    may not be searched, or a symbolic link leads nowhere).
  Special files (pipes, devices) are not modelled.
\<close>

datatype errno = ENOENT | ENOTDIR | EACCES | Errno nat

datatype stamp = Early | Usual | Late

datatype access = Plain | NoOpen errno | ReadFault "8 word list" errno | WriteFault errno

datatype node = File fdata stamp access | Dir stamp "errno option" | NoStat errno

type_synonym fs = "path \<rightharpoonup> node"

text \<open>
  What ends the script early: \<^verbatim>\<open>exit(1)\<close> raises \<^verbatim>\<open>SystemExit\<close>; the library calls raise
  \<^verbatim>\<open>OSError\<close> (with the file name when the call was given one), \<^verbatim>\<open>ValueError\<close> for a
  timestamp before 1980, \<^verbatim>\<open>struct.error\<close> for one after 2107, and \<^verbatim>\<open>UnicodeEncodeError\<close>
  for text that standard output cannot encode. Nothing in the script catches any of
  them.
\<close>

datatype error =
    SystemExit int
  | OSError errno "path option"
  | ValueError
  | StructError
  | UnicodeEncodeError

abbreviation FileNotFoundError :: "path \<Rightarrow> error" where
  "FileNotFoundError p \<equiv> OSError ENOENT (Some p)"

text \<open>
  The effects of a run, in the order they happen. \<open>Print\<close> is text that reached
  standard output, as Unicode code points, which is what a Python \<^verbatim>\<open>str\<close> is;
  \<open>Traceback\<close> is the report of an uncaught exception that reached standard error.
  The others are calls on the filesystem, made whether or not they succeed: \<open>Stat\<close> is
  \<^verbatim>\<open>os.stat\<close>, \<open>Read\<close> is the opening of a file for reading, \<open>OpenW\<close> the opening of
  the archive for writing, \<open>Append\<close> the writing of one entry into the archive open at
  the given path, and \<open>Close\<close> the closing of the archive.
\<close>

datatype event =
    Exec string
  | Print "nat list"
  | Traceback error
  | OpenW path
  | Stat path
  | Read path
  | Append path string
  | Close path

text \<open>
  Standard output and standard error. A stream works, or fails every write with an
  error (a closed pipe, a full device), or is closed, in which case the interpreter
  has no stream object and \<^verbatim>\<open>print\<close> does nothing. Standard output has an encoding,
  given by the code points it can encode (all of them, when its error handler replaces
  what the encoding lacks), and a buffering mode: block buffered (a pipe or a file),
  line buffered (a terminal) or unbuffered (\<^verbatim>\<open>python -u\<close>).
\<close>

datatype stream = Works | Fails errno | Closed

datatype buffering = Block | Line | Unbuffered

record console =
  encodes :: "nat \<Rightarrow> bool"
  mode :: buffering
  stdout :: stream
  stderr :: stream

text \<open>
  The state of a run: the filesystem, the effects so far, the console, the text that
  standard output holds in its buffer, and whether the interpreter failed to flush a
  stream when it ended.
\<close>

record world =
  files :: fs
  trace :: "event list"
  tty :: console
  pending :: "nat list list"
  lost :: bool

text \<open>
  The \<^verbatim>\<open>ZipFile\<close> object: the file it writes to, the entries of its directory so far,
  and the error that closing it will raise, once its file and its directory no longer
  fit together.
\<close>

record zipfile =
  filename :: path
  filelist :: "entry list"
  broken :: "error option"

text \<open>
  The external command is not part of the repository. It is a parameter: given the
  command line and the filesystem, it returns its status and the filesystem it leaves.
\<close>

type_synonym shell = "string \<Rightarrow> fs \<Rightarrow> int \<times> fs"

definition emit :: "event \<Rightarrow> world \<Rightarrow> world" where
  "emit e w = w\<lparr>trace := trace w @ [e]\<rparr>"

section \<open>The library calls\<close>

definition os_system :: "shell \<Rightarrow> string \<Rightarrow> world \<Rightarrow> int \<times> world" where
  "os_system sh cmd w =
     (case sh cmd (files w) of (st, fs') \<Rightarrow> (st, emit (Exec cmd) (w\<lparr>files := fs'\<rparr>)))"

text \<open>
  \<^verbatim>\<open>print(msg)\<close>. With no stream it returns at once. Otherwise the text is encoded
  first, which raises when the encoding lacks one of its characters. A block buffered
  stream keeps the text for later; a line buffered stream keeps it and flushes at the
  end of the line, so that a failing write raises while the text stays in the buffer;
  an unbuffered stream writes at once and keeps nothing.
\<close>

definition print :: "nat list \<Rightarrow> world \<Rightarrow> (error + unit) \<times> world" where
  "print msg w =
     (case stdout (tty w) of
        Closed \<Rightarrow> (Inr (), w)
      | Works \<Rightarrow>
          if \<not> list_all (encodes (tty w)) msg then (Inl UnicodeEncodeError, w)
          else (case mode (tty w) of
                  Block \<Rightarrow> (Inr (), w\<lparr>pending := pending w @ [msg]\<rparr>)
                | Line \<Rightarrow> (Inr (), emit (Print msg) w)
                | Unbuffered \<Rightarrow> (Inr (), emit (Print msg) w))
      | Fails e \<Rightarrow>
          if \<not> list_all (encodes (tty w)) msg then (Inl UnicodeEncodeError, w)
          else (case mode (tty w) of
                  Block \<Rightarrow> (Inr (), w\<lparr>pending := pending w @ [msg]\<rparr>)
                | Line \<Rightarrow> (Inl (OSError e None), w\<lparr>pending := pending w @ [msg]\<rparr>)
                | Unbuffered \<Rightarrow> (Inl (OSError e None), w)))"

text \<open>
  \<^verbatim>\<open>zipfile.ZipFile(p, "w")\<close> opens \<open>p\<close> with mode \<^verbatim>\<open>w+b\<close>: the file is created, or
  truncated when it exists. The output path is taken to be one that can be opened for
  writing, and the clock of the machine to stand between 1980 and 2107, so that the
  file is an ordinary one.
\<close>

definition ZipFile :: "path \<Rightarrow> world \<Rightarrow> zipfile \<times> world" where
  "ZipFile p w =
     (\<lparr>filename = p, filelist = [], broken = None\<rparr>,
      emit (OpenW p) (w\<lparr>files := (files w)(p \<mapsto> File (Raw []) Usual Plain)\<rparr>))"

text \<open>
  \<^verbatim>\<open>zip.write(src, arcname=arc)\<close>, by what \<open>src\<close> names, after \<^verbatim>\<open>os.stat(src)\<close> was
  called. The equations follow the order of the library: \<^verbatim>\<open>os.stat\<close> raises; the
  \<^verbatim>\<open>ZipInfo\<close> of a timestamp before 1980 cannot be made; a directory gets the name
  \<open>arc/\<close> and is entered in the directory of the archive before its header is
  written, so that a header that cannot be packed (a timestamp after 2107) or cannot be
  written leaves the archive broken; a regular file is opened, then its header is
  packed and written, then its content is copied, and the entry enters the directory
  of the archive when the copy ends, also when a read error ended it early. A failed
  write stays in the buffer of the archive's file and fails again when the archive is
  closed. The archive name is stored as given: the normalisation the library applies
  to it (drive and leading separators removed, the separator of the platform replaced
  by a forward slash) leaves the five names of the script as they are.
\<close>

fun zip_write_node ::
  "path \<Rightarrow> string \<Rightarrow> node option \<Rightarrow> zipfile \<Rightarrow> world \<Rightarrow> (error + unit) \<times> zipfile \<times> world" where
  "zip_write_node src arc None z w = (Inl (FileNotFoundError src), z, w)"
| "zip_write_node src arc (Some (NoStat e)) z w = (Inl (OSError e (Some src)), z, w)"
| "zip_write_node src arc (Some (Dir Early x)) z w = (Inl ValueError, z, w)"
| "zip_write_node src arc (Some (Dir Late x)) z w =
     (Inl StructError,
      z\<lparr>filelist := filelist z @ [(arc @ ''/'', Raw [])], broken := Some StructError\<rparr>, w)"
| "zip_write_node src arc (Some (Dir Usual (Some e))) z w =
     (Inl (OSError e None),
      z\<lparr>filelist := filelist z @ [(arc @ ''/'', Raw [])], broken := Some (OSError e None)\<rparr>,
      emit (Append (filename z) (arc @ ''/'')) w)"
| "zip_write_node src arc (Some (Dir Usual None)) z w =
     (Inr (), z\<lparr>filelist := filelist z @ [(arc @ ''/'', Raw [])]\<rparr>,
      emit (Append (filename z) (arc @ ''/'')) w)"
| "zip_write_node src arc (Some (File d Early a)) z w = (Inl ValueError, z, w)"
| "zip_write_node src arc (Some (File d s (NoOpen e))) z w =
     (Inl (OSError e (Some src)), z, emit (Read src) w)"
| "zip_write_node src arc (Some (File d Late a)) z w = (Inl StructError, z, emit (Read src) w)"
| "zip_write_node src arc (Some (File d Usual (ReadFault bs e))) z w =
     (Inl (OSError e None), z\<lparr>filelist := filelist z @ [(arc, Raw bs)]\<rparr>,
      emit (Append (filename z) arc) (emit (Read src) w))"
| "zip_write_node src arc (Some (File d Usual (WriteFault e))) z w =
     (Inl (OSError e None), z\<lparr>broken := Some (OSError e None)\<rparr>,
      emit (Append (filename z) arc) (emit (Read src) w))"
| "zip_write_node src arc (Some (File d Usual Plain)) z w =
     (Inr (), z\<lparr>filelist := filelist z @ [(arc, d)]\<rparr>,
      emit (Append (filename z) arc) (emit (Read src) w))"

definition zip_write ::
  "path \<Rightarrow> string \<Rightarrow> zipfile \<Rightarrow> world \<Rightarrow> (error + unit) \<times> zipfile \<times> world" where
  "zip_write src arc z w = zip_write_node src arc (files w src) z (emit (Stat src) w)"

text \<open>
  \<^verbatim>\<open>ZipFile.close\<close> writes the central directory: from then on the file is an archive
  of the entries in the directory. When the archive is broken the directory cannot be
  written: the call raises and what it leaves is no archive. A write is taken to fail
  inside the \<^verbatim>\<open>zip.write\<close> call that makes it, so that closing fails only after such a
  call.
\<close>

definition zip_close :: "zipfile \<Rightarrow> world \<Rightarrow> (error + unit) \<times> world" where
  "zip_close z w =
     (case broken z of
        None \<Rightarrow>
          (Inr (),
           emit (Close (filename z))
             (w\<lparr>files := (files w)(filename z \<mapsto> File (Zip (filelist z)) Usual Plain)\<rparr>))
      | Some e \<Rightarrow>
          (Inl e,
           emit (Close (filename z))
             (w\<lparr>files := (files w)(filename z \<mapsto> File Damaged Usual Plain)\<rparr>)))"

text \<open>Sequencing of statements: an exception skips the statements that follow.\<close>

fun and_then ::
  "(error + unit) \<times> zipfile \<times> world \<Rightarrow>
   (zipfile \<Rightarrow> world \<Rightarrow> (error + unit) \<times> zipfile \<times> world) \<Rightarrow>
   (error + unit) \<times> zipfile \<times> world" where
  "and_then (Inl e, z, w) f = (Inl e, z, w)"
| "and_then (Inr u, z, w) f = f z w"

section \<open>The script\<close>

text \<open>The text printed when the build fails: U+7F16 U+8BD1 U+5931 U+8D25.\<close>

definition build_failed_msg :: "nat list" where
  "build_failed_msg = [0x7F16, 0x8BD1, 0x5931, 0x8D25]"

text \<open>The body of the \<^verbatim>\<open>with\<close> statement: the five calls, in the order of the script.\<close>

definition with_body :: "zipfile \<Rightarrow> world \<Rightarrow> (error + unit) \<times> zipfile \<times> world" where
  "with_body z w =
     and_then (and_then (and_then (and_then
       (zip_write ''./target/x86_64-pc-windows-gnu/release/sasa.dll''
          ''x86_64-pc-windows-gnu/sasa.dll'' z w)
       (zip_write ''./target/i686-pc-windows-gnu/release/sasa.dll''
          ''i686-pc-windows-gnu/sasa.dll''))
       (zip_write ''./target/aarch64-linux-android/release/libsasa.so''
          ''aarch64-linux-android/libsasa.so''))
       (zip_write ''./target/armv7-linux-androideabi/release/libsasa.so''
          ''armv7-linux-androideabi/libsasa.so''))
       (zip_write ''./target/aarch64-apple-ios/release/libsasa.a''
          ''aarch64-apple-ios/libsasa.a'')"

text \<open>
  \<^verbatim>\<open>with zipfile.ZipFile("build.zip", "w") as zip: ...\<close>: the archive is opened, the body
  runs, and the archive is closed on every way out of the body, also when the body
  raises. The exception of the body then goes on, unless closing raises one of its own,
  which takes its place.
\<close>

definition package :: "world \<Rightarrow> (error + unit) \<times> world" where
  "package w =
     (case ZipFile ''build.zip'' w of (z, w1) \<Rightarrow>
        (case with_body z w1 of (r, z', w2) \<Rightarrow>
           (case zip_close z' w2 of
              (Inl e, w3) \<Rightarrow> (Inl e, w3)
            | (Inr u, w3) \<Rightarrow> (r, w3))))"

definition build_py :: "shell \<Rightarrow> world \<Rightarrow> (error + unit) \<times> world" where
  "build_py sh w =
     (case os_system sh ''powershell ./build.ps1'' w of (st, w1) \<Rightarrow>
        if st \<noteq> 0 then
          (case print build_failed_msg w1 of
             (Inl e, w2) \<Rightarrow> (Inl e, w2)
           | (Inr u, w2) \<Rightarrow> (Inl (SystemExit 1), w2))
        else package w1)"

text \<open>
  The interpreter around the script. An exception that is not \<^verbatim>\<open>SystemExit\<close> is
  reported on standard error; a stream that fails loses the report. Then standard
  output is flushed: buffered text reaches a working stream and is lost on a failing
  one.
\<close>

fun report :: "error + unit \<Rightarrow> world \<Rightarrow> world" where
  "report (Inr u) w = w"
| "report (Inl (SystemExit n)) w = w"
| "report (Inl e) w =
     (case stderr (tty w) of
        Works \<Rightarrow> emit (Traceback e) w
      | Fails x \<Rightarrow> w\<lparr>lost := True\<rparr>
      | Closed \<Rightarrow> w)"

definition flush :: "world \<Rightarrow> world" where
  "flush w =
     (if pending w = [] then w
      else (case stdout (tty w) of
              Works \<Rightarrow> w\<lparr>trace := trace w @ map Print (pending w), pending := []\<rparr>
            | Fails x \<Rightarrow> w\<lparr>lost := True\<rparr>
            | Closed \<Rightarrow> w))"

text \<open>A run of the script on a console and a filesystem, with nothing done yet.\<close>

definition run :: "shell \<Rightarrow> console \<Rightarrow> fs \<Rightarrow> (error + unit) \<times> world" where
  "run sh con fs0 =
     (case build_py sh \<lparr>files = fs0, trace = [], tty = con, pending = [], lost = False\<rparr> of
        (r, w) \<Rightarrow> (r, flush (report r w)))"

text \<open>
  The exit status of the interpreter: 120 when a stream could not be flushed at the
  end; otherwise 0 when the script ran to its end, the argument of \<^verbatim>\<open>exit\<close>, and 1
  after an exception nothing caught.
\<close>

fun status_of :: "error + unit \<Rightarrow> int" where
  "status_of (Inr u) = 0"
| "status_of (Inl (SystemExit n)) = n"
| "status_of (Inl e) = 1"

definition exit_status :: "(error + unit) \<times> world \<Rightarrow> int" where
  "exit_status rw = (if lost (snd rw) then 120 else status_of (fst rw))"

section \<open>The manifest\<close>

text \<open>
  The five pairs of the script, read as the manifest of the specification: a target is
  its triple and the name of its artifact; the script reads the artifact at
  \<^verbatim>\<open>./target/<triple>/release/<name>\<close> and stores it under \<^verbatim>\<open><triple>/<name>\<close>.
\<close>

definition targets :: "(string \<times> string) list" where
  "targets =
     [(''x86_64-pc-windows-gnu'', ''sasa.dll''),
      (''i686-pc-windows-gnu'', ''sasa.dll''),
      (''aarch64-linux-android'', ''libsasa.so''),
      (''armv7-linux-androideabi'', ''libsasa.so''),
      (''aarch64-apple-ios'', ''libsasa.a'')]"

definition artifact_path :: "string \<times> string \<Rightarrow> path" where
  "artifact_path t = ''./target/'' @ fst t @ ''/release/'' @ snd t"

definition entry_path :: "string \<times> string \<Rightarrow> string" where
  "entry_path t = fst t @ ''/'' @ snd t"

text \<open>The calls of the body as a list, and the loop that runs such a list.\<close>

definition writes :: "(path \<times> string) list" where
  "writes = map (\<lambda>t. (artifact_path t, entry_path t)) targets"

fun write_all ::
  "(path \<times> string) list \<Rightarrow> zipfile \<Rightarrow> world \<Rightarrow> (error + unit) \<times> zipfile \<times> world" where
  "write_all [] z w = (Inr (), z, w)"
| "write_all ((src, arc) # ws) z w = and_then (zip_write src arc z w) (write_all ws)"

section \<open>What one call does, read off the node\<close>

text \<open>
  The four things a call of \<^verbatim>\<open>zip.write\<close> does, each as a function of what the path
  names: whether it returns (\<open>storable\<close>) and what it raises otherwise, the entries it
  adds to the directory of the archive, whether it breaks the archive, and the calls
  it makes after \<^verbatim>\<open>os.stat\<close>.
\<close>

fun storable :: "node option \<Rightarrow> bool" where
  "storable (Some (File d Usual Plain)) = True"
| "storable (Some (Dir Usual None)) = True"
| "storable n = False"

fun raised :: "path \<Rightarrow> node option \<Rightarrow> error + unit" where
  "raised src None = Inl (FileNotFoundError src)"
| "raised src (Some (NoStat e)) = Inl (OSError e (Some src))"
| "raised src (Some (Dir Early x)) = Inl ValueError"
| "raised src (Some (Dir Late x)) = Inl StructError"
| "raised src (Some (Dir Usual (Some e))) = Inl (OSError e None)"
| "raised src (Some (Dir Usual None)) = Inr ()"
| "raised src (Some (File d Early a)) = Inl ValueError"
| "raised src (Some (File d s (NoOpen e))) = Inl (OSError e (Some src))"
| "raised src (Some (File d Late a)) = Inl StructError"
| "raised src (Some (File d Usual (ReadFault bs e))) = Inl (OSError e None)"
| "raised src (Some (File d Usual (WriteFault e))) = Inl (OSError e None)"
| "raised src (Some (File d Usual Plain)) = Inr ()"

fun stored :: "string \<Rightarrow> node option \<Rightarrow> entry list" where
  "stored arc (Some (Dir Late x)) = [(arc @ ''/'', Raw [])]"
| "stored arc (Some (Dir Usual x)) = [(arc @ ''/'', Raw [])]"
| "stored arc (Some (File d Usual (ReadFault bs e))) = [(arc, Raw bs)]"
| "stored arc (Some (File d Usual Plain)) = [(arc, d)]"
| "stored arc n = []"

fun spoils :: "node option \<Rightarrow> error option" where
  "spoils (Some (Dir Late x)) = Some StructError"
| "spoils (Some (Dir Usual (Some e))) = Some (OSError e None)"
| "spoils (Some (File d Usual (WriteFault e))) = Some (OSError e None)"
| "spoils n = None"

fun calls :: "path \<Rightarrow> path \<Rightarrow> string \<Rightarrow> node option \<Rightarrow> event list" where
  "calls zn src arc (Some (Dir Usual x)) = [Append zn (arc @ ''/'')]"
| "calls zn src arc (Some (File d Early a)) = []"
| "calls zn src arc (Some (File d s (NoOpen e))) = [Read src]"
| "calls zn src arc (Some (File d Late a)) = [Read src]"
| "calls zn src arc (Some (File d Usual a)) = [Read src, Append zn arc]"
| "calls zn src arc n = []"

text \<open>
  The calls of a list that return, the rest, and the calls that are made: those that
  return and the first that does not.
\<close>

definition found :: "fs \<Rightarrow> (path \<times> string) list \<Rightarrow> (path \<times> string) list" where
  "found g ws = takeWhile (\<lambda>(src, arc). storable (g src)) ws"

definition not_found :: "fs \<Rightarrow> (path \<times> string) list \<Rightarrow> (path \<times> string) list" where
  "not_found g ws = dropWhile (\<lambda>(src, arc). storable (g src)) ws"

definition made :: "fs \<Rightarrow> (path \<times> string) list \<Rightarrow> (path \<times> string) list" where
  "made g ws = found g ws @ take 1 (not_found g ws)"

definition entries_of :: "fs \<Rightarrow> (path \<times> string) list \<Rightarrow> entry list" where
  "entries_of g ws = concat (map (\<lambda>(src, arc). stored arc (g src)) ws)"

definition events_of :: "path \<Rightarrow> fs \<Rightarrow> (path \<times> string) list \<Rightarrow> event list" where
  "events_of zn g ws = concat (map (\<lambda>(src, arc). Stat src # calls zn src arc (g src)) ws)"

definition outcome_of :: "fs \<Rightarrow> (path \<times> string) list \<Rightarrow> error + unit" where
  "outcome_of g rest = (case rest of [] \<Rightarrow> Inr () | (src, arc) # _ \<Rightarrow> raised src (g src))"

definition spoil_of :: "fs \<Rightarrow> (path \<times> string) list \<Rightarrow> error option" where
  "spoil_of g rest = (case rest of [] \<Rightarrow> None | (src, arc) # _ \<Rightarrow> spoils (g src))"

definition left_of :: "fs \<Rightarrow> (path \<times> string) list \<Rightarrow> fdata" where
  "left_of g ws =
     (case spoil_of g (not_found g ws) of
        None \<Rightarrow> Zip (entries_of g (made g ws))
      | Some e \<Rightarrow> Damaged)"

section \<open>Notions the claims are stated with\<close>

text \<open>
  The targets packed by a run on the filesystem \<open>g\<close> (those before the first whose
  call does not return), and the others, the first of which stops the run.
\<close>

definition packed :: "fs \<Rightarrow> (string \<times> string) list" where
  "packed g = takeWhile (\<lambda>t. storable (g (artifact_path t))) targets"

definition unpacked :: "fs \<Rightarrow> (string \<times> string) list" where
  "unpacked g = dropWhile (\<lambda>t. storable (g (artifact_path t))) targets"

text \<open>
  What the call for a target adds to the directory of the archive, how the with
  statement ends, and the content it leaves at the output path: the archive of what
  the calls made have added, or no archive when the failing call broke it.
\<close>

definition entry_of :: "fs \<Rightarrow> string \<times> string \<Rightarrow> entry list" where
  "entry_of g t = stored (entry_path t) (g (artifact_path t))"

definition outcome :: "fs \<Rightarrow> error + unit" where
  "outcome g =
     (case unpacked g of
        [] \<Rightarrow> Inr ()
      | t # rest \<Rightarrow> raised (artifact_path t) (g (artifact_path t)))"

definition archive_after :: "fs \<Rightarrow> fdata" where
  "archive_after g =
     (case unpacked g of
        [] \<Rightarrow> Zip (concat (map (entry_of g) targets))
      | t # rest \<Rightarrow>
          (case spoils (g (artifact_path t)) of
             None \<Rightarrow> Zip (concat (map (entry_of g) (packed g)) @ entry_of g t)
           | Some e \<Rightarrow> Damaged))"

text \<open>The content of a regular file.\<close>

fun content :: "node option \<Rightarrow> fdata option" where
  "content (Some (File d s a)) = Some d"
| "content n = None"

text \<open>The path an effect writes to, and the path it reads.\<close>

fun written_path :: "event \<Rightarrow> path option" where
  "written_path (OpenW p) = Some p"
| "written_path (Append p arc) = Some p"
| "written_path (Close p) = Some p"
| "written_path e = None"

fun read_path :: "event \<Rightarrow> path option" where
  "read_path (Stat p) = Some p"
| "read_path (Read p) = Some p"
| "read_path e = None"


text \<open>
  The stages of the specification's pipeline, and the stage each effect of a run
  belongs to. Examining or reading an artifact is validation as long as no archive has
  been opened, and packaging once one has; the report of an exception belongs to no
  stage. A run that ends with an exception ends in the failure of the stage it was
  in. The stages of a run are the stages of its effects in order, between \<open>START\<close> and
  the stage it ends in, each run of equal stages written once.
\<close>

datatype stage =
  START | BUILDING | BUILD_FAILED | VALIDATING | VALIDATION_FAILED | PACKAGING | PACKAGE_FAILED | DONE

fun stages_from :: "bool \<Rightarrow> event list \<Rightarrow> stage list" where
  "stages_from opened [] = []"
| "stages_from opened (Exec c # es) = BUILDING # stages_from opened es"
| "stages_from opened (Print m # es) = BUILD_FAILED # stages_from opened es"
| "stages_from opened (Traceback x # es) = stages_from opened es"
| "stages_from opened (OpenW p # es) = PACKAGING # stages_from True es"
| "stages_from opened (Stat p # es) =
     (if opened then PACKAGING else VALIDATING) # stages_from opened es"
| "stages_from opened (Read p # es) =
     (if opened then PACKAGING else VALIDATING) # stages_from opened es"
| "stages_from opened (Append p a # es) = PACKAGING # stages_from opened es"
| "stages_from opened (Close p # es) = PACKAGING # stages_from opened es"

fun failure_of :: "stage \<Rightarrow> stage" where
  "failure_of VALIDATING = VALIDATION_FAILED"
| "failure_of PACKAGING = PACKAGE_FAILED"
| "failure_of VALIDATION_FAILED = VALIDATION_FAILED"
| "failure_of PACKAGE_FAILED = PACKAGE_FAILED"
| "failure_of s = BUILD_FAILED"

fun final_stage :: "stage \<Rightarrow> error + unit \<Rightarrow> stage" where
  "final_stage s (Inr u) = DONE"
| "final_stage s (Inl e) = failure_of s"

definition stages :: "(error + unit) \<times> world \<Rightarrow> stage list" where
  "stages rw =
     (let ss = START # stages_from False (trace (snd rw))
      in remdups_adj (ss @ [final_stage (last ss) (fst rw)]))"

text \<open>
  Concrete inputs. A build command that succeeds and one that fails, both leaving the
  filesystem as it is. A console that works, one whose standard output is a pipe
  nobody reads, and one whose encoding is ASCII. A filesystem with the five artifacts,
  the second of them of zero length; one where the third artifact is missing and an
  archive of an earlier run is at the output path; one where the second artifact has a
  timestamp before 1980; and one where a directory stands at the path of the second
  artifact.
\<close>

definition sh_ok :: shell where
  "sh_ok cmd g = (0, g)"

definition sh_fail :: shell where
  "sh_fail cmd g = (2, g)"

definition con_ok :: console where
  "con_ok = \<lparr>encodes = (\<lambda>c. True), mode = Line, stdout = Works, stderr = Works\<rparr>"

definition con_pipe :: console where
  "con_pipe = \<lparr>encodes = (\<lambda>c. True), mode = Block, stdout = Fails (Errno 32), stderr = Works\<rparr>"

definition con_ascii :: console where
  "con_ascii = \<lparr>encodes = (\<lambda>c. c < 128), mode = Line, stdout = Works, stderr = Works\<rparr>"

definition fs_full :: fs where
  "fs_full =
     [''./target/x86_64-pc-windows-gnu/release/sasa.dll'' \<mapsto> File (Raw [1]) Usual Plain,
      ''./target/i686-pc-windows-gnu/release/sasa.dll'' \<mapsto> File (Raw []) Usual Plain,
      ''./target/aarch64-linux-android/release/libsasa.so'' \<mapsto> File (Raw [3, 3]) Usual Plain,
      ''./target/armv7-linux-androideabi/release/libsasa.so'' \<mapsto> File (Raw [4]) Usual Plain,
      ''./target/aarch64-apple-ios/release/libsasa.a'' \<mapsto> File (Raw [5, 0]) Usual Plain]"

definition fs_partial :: fs where
  "fs_partial =
     [''build.zip'' \<mapsto> File (Zip [(''old'', Raw [9])]) Usual Plain,
      ''./target/x86_64-pc-windows-gnu/release/sasa.dll'' \<mapsto> File (Raw [1]) Usual Plain,
      ''./target/i686-pc-windows-gnu/release/sasa.dll'' \<mapsto> File (Raw [2]) Usual Plain,
      ''./target/armv7-linux-androideabi/release/libsasa.so'' \<mapsto> File (Raw [4]) Usual Plain,
      ''./target/aarch64-apple-ios/release/libsasa.a'' \<mapsto> File (Raw [5, 0]) Usual Plain]"

definition fs_full_old :: fs where
  "fs_full_old =
     fs_full(''build.zip'' \<mapsto> File (Zip [(''old'', Raw [9])]) Usual Plain,
             ''notes.txt'' \<mapsto> File (Raw [7]) Usual Plain)"


definition fs_dir :: fs where
  "fs_dir = fs_full(''./target/i686-pc-windows-gnu/release/sasa.dll'' \<mapsto> Dir Usual None)"


section \<open>The body as a loop\<close>

lemma and_then_assoc:
  "and_then (and_then r f) g = and_then r (\<lambda>z w. and_then (f z w) g)"
  by (cases "(r, f)" rule: and_then.cases) simp_all

lemma and_then_unit: "and_then r (\<lambda>z w. (Inr (), z, w)) = r"
proof (cases r)
  case (fields a z w)
  then show ?thesis by (cases a) simp_all
qed

lemma writes_eq:
  "writes =
     [(''./target/x86_64-pc-windows-gnu/release/sasa.dll'', ''x86_64-pc-windows-gnu/sasa.dll''),
      (''./target/i686-pc-windows-gnu/release/sasa.dll'', ''i686-pc-windows-gnu/sasa.dll''),
      (''./target/aarch64-linux-android/release/libsasa.so'', ''aarch64-linux-android/libsasa.so''),
      (''./target/armv7-linux-androideabi/release/libsasa.so'', ''armv7-linux-androideabi/libsasa.so''),
      (''./target/aarch64-apple-ios/release/libsasa.a'', ''aarch64-apple-ios/libsasa.a'')]"
  by (simp add: writes_def targets_def artifact_path_def entry_path_def)

lemma write_all_Nil_fun: "write_all [] = (\<lambda>z w. (Inr (), z, w))"
  by (rule ext, rule ext) simp

lemma write_all_Cons_fun:
  "write_all ((src, arc) # ws) = (\<lambda>z w. and_then (zip_write src arc z w) (write_all ws))"
  by (rule ext, rule ext) simp

lemma with_body_loop: "with_body z w = write_all writes z w"
  unfolding writes_eq with_body_def
  by (simp only: write_all_Cons_fun write_all_Nil_fun and_then_assoc and_then_unit)

lemma zip_write_node_shape:
  "zip_write_node src arc n z w =
     (raised src n,
      z\<lparr>filelist := filelist z @ stored arc n,
        broken := (case spoils n of None \<Rightarrow> broken z | Some e \<Rightarrow> Some e)\<rparr>,
      w\<lparr>trace := trace w @ calls (filename z) src arc n\<rparr>)"
  by (cases "(src, arc, n, z, w)" rule: zip_write_node.cases) (simp_all add: emit_def)

lemma zip_write_shape:
  "zip_write src arc z w =
     (raised src (files w src),
      z\<lparr>filelist := filelist z @ stored arc (files w src),
        broken := (case spoils (files w src) of None \<Rightarrow> broken z | Some e \<Rightarrow> Some e)\<rparr>,
      w\<lparr>trace := trace w @ Stat src # calls (filename z) src arc (files w src)\<rparr>)"
  by (simp add: zip_write_def zip_write_node_shape emit_def)

lemma storable_raised: "storable n \<Longrightarrow> raised src n = Inr ()"
  by (cases n rule: storable.cases) simp_all

lemma storable_spoils: "storable n \<Longrightarrow> spoils n = None"
  by (cases n rule: storable.cases) simp_all

lemma not_storable_raised: "\<not> storable n \<Longrightarrow> \<exists>e. raised src n = Inl e"
  by (cases "(src, n)" rule: raised.cases) simp_all

lemma spoils_raised: "spoils n = Some e \<Longrightarrow> raised src n = Inl e"
  by (cases "(src, n)" rule: raised.cases) simp_all

lemma write_all_result:
  "write_all ws z w =
     (outcome_of (files w) (not_found (files w) ws),
      z\<lparr>filelist := filelist z @ entries_of (files w) (made (files w) ws),
        broken := (case spoil_of (files w) (not_found (files w) ws) of
                     None \<Rightarrow> broken z | Some e \<Rightarrow> Some e)\<rparr>,
      w\<lparr>trace := trace w @ events_of (filename z) (files w) (made (files w) ws)\<rparr>)"
proof (induction ws arbitrary: z w)
  case Nil
  show ?case
    by (simp add: outcome_of_def found_def not_found_def made_def entries_of_def events_of_def
        spoil_of_def)
next
  case (Cons x ws)
  obtain src arc where x: "x = (src, arc)" by (cases x)
  show ?case
  proof (cases "storable (files w src)")
    case True
    then show ?thesis
      by (simp add: x zip_write_shape storable_raised storable_spoils Cons.IH outcome_of_def
          found_def not_found_def made_def entries_of_def events_of_def spoil_of_def
          split: option.splits)
  next
    case False
    then obtain e where "raised src (files w src) = Inl e"
      using not_storable_raised by blast
    with False show ?thesis
      by (simp add: x zip_write_shape outcome_of_def found_def not_found_def made_def
          entries_of_def events_of_def spoil_of_def)
  qed
qed

section \<open>Filesystems that agree on the paths of a list\<close>

lemma found_cong:
  "\<forall>(src, arc) \<in> set ws. g1 src = g2 src \<Longrightarrow> found g1 ws = found g2 ws"
  unfolding found_def by (rule takeWhile_cong) auto

lemma not_found_cong:
  "\<forall>(src, arc) \<in> set ws. g1 src = g2 src \<Longrightarrow> not_found g1 ws = not_found g2 ws"
  unfolding not_found_def by (rule dropWhile_cong) auto

lemma made_cong:
  "\<forall>(src, arc) \<in> set ws. g1 src = g2 src \<Longrightarrow> made g1 ws = made g2 ws"
  by (simp add: made_def found_cong not_found_cong)

lemma found_subset: "set (found g ws) \<subseteq> set ws"
  unfolding found_def by (auto dest: set_takeWhileD)

lemma not_found_subset: "set (not_found g ws) \<subseteq> set ws"
  unfolding not_found_def by (auto dest: set_dropWhileD)

lemma made_subset: "set (made g ws) \<subseteq> set ws"
  using found_subset [of g ws] not_found_subset [of g ws]
  by (auto simp: made_def dest: in_set_takeD)

lemma entries_of_cong:
  "\<forall>(src, arc) \<in> set ws. g1 src = g2 src \<Longrightarrow> entries_of g1 ws = entries_of g2 ws"
  unfolding entries_of_def by (rule arg_cong [where f = concat], rule map_cong) auto

lemma events_of_cong:
  "\<forall>(src, arc) \<in> set ws. g1 src = g2 src \<Longrightarrow> events_of zn g1 ws = events_of zn g2 ws"
  unfolding events_of_def by (rule arg_cong [where f = concat], rule map_cong) auto

lemma outcome_of_cong:
  "\<forall>(src, arc) \<in> set ws. g1 src = g2 src \<Longrightarrow> outcome_of g1 ws = outcome_of g2 ws"
  by (cases ws) (auto simp: outcome_of_def)

lemma spoil_of_cong:
  "\<forall>(src, arc) \<in> set ws. g1 src = g2 src \<Longrightarrow> spoil_of g1 ws = spoil_of g2 ws"
  by (cases ws) (auto simp: spoil_of_def)

lemma agree_made:
  assumes "\<forall>(src, arc) \<in> set ws. g1 src = g2 src"
  shows "\<forall>(src, arc) \<in> set (made g2 ws). g1 src = g2 src"
  using assms made_subset [of g2 ws] by blast

lemma agree_not_found:
  assumes "\<forall>(src, arc) \<in> set ws. g1 src = g2 src"
  shows "\<forall>(src, arc) \<in> set (not_found g2 ws). g1 src = g2 src"
  using assms not_found_subset [of g2 ws] by blast

lemma made_entries_cong:
  assumes "\<forall>(src, arc) \<in> set ws. g1 src = g2 src"
  shows "entries_of g1 (made g1 ws) = entries_of g2 (made g2 ws)"
  using entries_of_cong [OF agree_made [OF assms]] made_cong [OF assms] by simp

lemma made_events_cong:
  assumes "\<forall>(src, arc) \<in> set ws. g1 src = g2 src"
  shows "events_of zn g1 (made g1 ws) = events_of zn g2 (made g2 ws)"
  using events_of_cong [OF agree_made [OF assms]] made_cong [OF assms] by simp

lemma rest_outcome_cong:
  assumes "\<forall>(src, arc) \<in> set ws. g1 src = g2 src"
  shows "outcome_of g1 (not_found g1 ws) = outcome_of g2 (not_found g2 ws)"
  using outcome_of_cong [OF agree_not_found [OF assms]] not_found_cong [OF assms] by simp

lemma rest_spoil_cong:
  assumes "\<forall>(src, arc) \<in> set ws. g1 src = g2 src"
  shows "spoil_of g1 (not_found g1 ws) = spoil_of g2 (not_found g2 ws)"
  using spoil_of_cong [OF agree_not_found [OF assms]] not_found_cong [OF assms] by simp

lemma left_of_cong:
  assumes "\<forall>(src, arc) \<in> set ws. g1 src = g2 src"
  shows "left_of g1 ws = left_of g2 ws"
  using made_entries_cong [OF assms] rest_spoil_cong [OF assms]
  by (simp add: left_of_def split: option.splits)

section \<open>The with statement and the run in closed form\<close>

lemma out_not_read: "(src, arc) \<in> set writes \<Longrightarrow> src \<noteq> ''build.zip''"
  by (auto simp: writes_eq)

lemma agree_upd: "\<forall>(src, arc) \<in> set writes. (g(''build.zip'' \<mapsto> n)) src = g src"
  using out_not_read by auto

lemma spoil_outcome:
  "spoil_of g (not_found g ws) = Some e \<Longrightarrow> outcome_of g (not_found g ws) = Inl e"
  by (cases "not_found g ws") (auto simp: spoil_of_def outcome_of_def spoils_raised)

lemma package_result:
  "package w =
     (outcome_of (files w) (not_found (files w) writes),
      w\<lparr>files := (files w)(''build.zip'' \<mapsto> File (left_of (files w) writes) Usual Plain),
        trace := trace w @ OpenW ''build.zip''
                   # events_of ''build.zip'' (files w) (made (files w) writes)
                   @ [Close ''build.zip'']\<rparr>)"
proof -
  let ?g = "files w"
  let ?g' = "?g(''build.zip'' \<mapsto> File (Raw []) Usual Plain)"
  have a: "\<forall>(src, arc) \<in> set writes. ?g' src = ?g src"
    by (rule agree_upd)
  show ?thesis
  proof (cases "spoil_of ?g (not_found ?g writes)")
    case None
    then show ?thesis
      by (simp add: package_def ZipFile_def zip_close_def emit_def with_body_loop write_all_result
          made_entries_cong [OF a] made_events_cong [OF a] rest_outcome_cong [OF a]
          rest_spoil_cong [OF a] left_of_def)
  next
    case (Some e)
    then show ?thesis
      by (simp add: package_def ZipFile_def zip_close_def emit_def with_body_loop write_all_result
          made_entries_cong [OF a] made_events_cong [OF a] rest_outcome_cong [OF a]
          rest_spoil_cong [OF a] left_of_def spoil_outcome)
  qed
qed

lemma files_report: "files (report r w) = files w"
  by (cases "(r, w)" rule: report.cases) (simp_all add: emit_def split: stream.splits)

lemma files_flush: "files (flush w) = files w"
  by (simp add: flush_def split: stream.splits)

lemma pending_report: "pending (report r w) = pending w"
  by (cases "(r, w)" rule: report.cases) (simp_all add: emit_def split: stream.splits)

lemma flush_idle: "pending w = [] \<Longrightarrow> flush w = w"
  by (simp add: flush_def)

lemma raised_no_exit: "raised src n \<noteq> Inl (SystemExit k)"
  by (cases "(src, n)" rule: raised.cases) simp_all

lemma outcome_no_exit: "outcome_of g rest \<noteq> Inl (SystemExit k)"
  by (cases rest) (auto simp: outcome_of_def raised_no_exit)

lemma run_success:
  assumes "sh ''powershell ./build.ps1'' fs0 = (0, g)"
  shows "run sh con fs0 =
     (outcome_of g (not_found g writes),
      report (outcome_of g (not_found g writes))
        \<lparr>files = g(''build.zip'' \<mapsto> File (left_of g writes) Usual Plain),
         trace = Exec ''powershell ./build.ps1'' # OpenW ''build.zip''
                   # events_of ''build.zip'' g (made g writes) @ [Close ''build.zip''],
         tty = con, pending = [], lost = False\<rparr>)"
  using assms
  by (simp add: run_def build_py_def os_system_def emit_def package_result flush_idle
      pending_report)

lemma run_outcome:
  assumes "sh ''powershell ./build.ps1'' fs0 = (0, g)"
  shows "fst (run sh con fs0) = outcome_of g (not_found g writes)"
  using run_success [of sh fs0 g con] assms by simp

lemma run_files:
  assumes "sh ''powershell ./build.ps1'' fs0 = (0, g)"
  shows "files (snd (run sh con fs0)) = g(''build.zip'' \<mapsto> File (left_of g writes) Usual Plain)"
  using run_success [of sh fs0 g con] assms by (simp add: files_report)

section \<open>Facts about the manifest\<close>

lemma found_targets: "found g writes = map (\<lambda>t. (artifact_path t, entry_path t)) (packed g)"
  by (simp add: found_def writes_def packed_def takeWhile_map comp_def)

lemma not_found_targets:
  "not_found g writes = map (\<lambda>t. (artifact_path t, entry_path t)) (unpacked g)"
  by (simp add: not_found_def writes_def unpacked_def dropWhile_map comp_def)

lemma packed_unpacked: "packed g @ unpacked g = targets"
  by (simp add: packed_def unpacked_def)

lemma unpacked_Nil: "unpacked g = [] \<longleftrightarrow> (\<forall>t\<in>set targets. storable (g (artifact_path t)))"
  by (simp add: unpacked_def dropWhile_eq_Nil_conv)

lemma packed_all: "\<forall>t \<in> set targets. storable (g (artifact_path t)) \<Longrightarrow> packed g = targets"
  using packed_unpacked [of g] unpacked_Nil [of g] by simp

lemma packed_storable: "u \<in> set (packed g) \<Longrightarrow> storable (g (artifact_path u))"
  unfolding packed_def by (auto dest: set_takeWhileD)

lemma unpacked_first:
  assumes "unpacked g = t # rest"
  shows "\<not> storable (g (artifact_path t))"
proof -
  from assms have "dropWhile (\<lambda>t. storable (g (artifact_path t))) targets \<noteq> []"
    by (simp add: unpacked_def)
  from hd_dropWhile [OF this] assms show ?thesis
    by (simp add: unpacked_def)
qed

lemma unpacked_Cons:
  assumes "\<exists>t \<in> set targets. \<not> storable (g (artifact_path t))"
  obtains t rest where "unpacked g = t # rest"
  using assms unpacked_Nil [of g] by (cases "unpacked g") auto

lemma length_packed: "unpacked g \<noteq> [] \<Longrightarrow> length (packed g) < length targets"
proof -
  assume "unpacked g \<noteq> []"
  then have "length (packed g) < length (packed g @ unpacked g)" by simp
  then show ?thesis by (simp only: packed_unpacked)
qed

lemma outcome_targets: "outcome_of g (not_found g writes) = outcome g"
  by (simp add: not_found_targets outcome_of_def outcome_def split: list.splits)

lemma spoil_targets:
  "spoil_of g (not_found g writes) =
     (case unpacked g of [] \<Rightarrow> None | t # rest \<Rightarrow> spoils (g (artifact_path t)))"
  by (simp add: not_found_targets spoil_of_def split: list.splits)

lemma entries_targets:
  "entries_of g (map (\<lambda>t. (artifact_path t, entry_path t)) ts) = concat (map (entry_of g) ts)"
  by (induction ts) (simp_all add: entries_of_def entry_of_def)

lemma made_targets:
  "made g writes = map (\<lambda>t. (artifact_path t, entry_path t)) (packed g @ take 1 (unpacked g))"
  by (simp add: made_def found_targets not_found_targets take_map)

lemma made_entries_targets:
  "entries_of g (made g writes) = concat (map (entry_of g) (packed g @ take 1 (unpacked g)))"
  by (simp only: made_targets entries_targets)

lemma left_targets: "left_of g writes = archive_after g"
proof (cases "unpacked g")
  case Nil
  then have "packed g = targets" using packed_unpacked [of g] by simp
  with Nil show ?thesis
    by (simp add: left_of_def spoil_targets made_entries_targets archive_after_def)
next
  case (Cons t rest)
  then show ?thesis
    by (simp add: left_of_def spoil_targets made_entries_targets archive_after_def
        split: option.splits)
qed

lemma run_outcome_targets:
  assumes "sh ''powershell ./build.ps1'' fs0 = (0, g)"
  shows "fst (run sh con fs0) = outcome g"
  using run_outcome [of sh fs0 g con] assms by (simp add: outcome_targets)

lemma run_archive:
  assumes "sh ''powershell ./build.ps1'' fs0 = (0, g)"
  shows "files (snd (run sh con fs0)) ''build.zip'' = Some (File (archive_after g) Usual Plain)"
  using run_files [of sh fs0 g con] assms by (simp add: left_targets)

lemma run_frame:
  assumes "sh ''powershell ./build.ps1'' fs0 = (0, g)" and "p \<noteq> ''build.zip''"
  shows "files (snd (run sh con fs0)) p = g p"
  using run_files [of sh fs0 g con] assms by simp

section \<open>Facts about the effects of a run\<close>

lemma trace_report:
  "trace (report r w) = trace w \<or>
   (\<exists>e. r = Inl e \<and> stderr (tty w) = Works \<and> trace (report r w) = trace w @ [Traceback e])"
  by (cases "(r, w)" rule: report.cases) (simp_all add: emit_def split: stream.splits)

lemma trace_report_works:
  assumes "stderr (tty w) = Works" and "\<forall>n. e \<noteq> SystemExit n"
  shows "trace (report (Inl e) w) = trace w @ [Traceback e]"
  using assms by (cases e) (simp_all add: emit_def)

lemma lost_report_ok: "lost (report (Inr u) w) = lost w"
  by simp

lemma lost_report_works: "stderr (tty w) = Works \<Longrightarrow> lost (report r w) = lost w"
  by (cases "(r, w)" rule: report.cases) (simp_all add: emit_def)

lemma run_trace:
  assumes "sh ''powershell ./build.ps1'' fs0 = (0, g)"
  shows "\<exists>tb. trace (snd (run sh con fs0)) =
           Exec ''powershell ./build.ps1'' # OpenW ''build.zip''
             # events_of ''build.zip'' g (made g writes) @ Close ''build.zip'' # tb \<and>
           (tb = [] \<or> (\<exists>e. tb = [Traceback e]))"
proof -
  let ?r = "outcome_of g (not_found g writes)"
  let ?w = "\<lparr>files = g(''build.zip'' \<mapsto> File (left_of g writes) Usual Plain),
         trace = Exec ''powershell ./build.ps1'' # OpenW ''build.zip''
                   # events_of ''build.zip'' g (made g writes) @ [Close ''build.zip''],
         tty = con, pending = [], lost = False\<rparr>"
  have "snd (run sh con fs0) = report ?r ?w"
    using run_success [of sh fs0 g con] assms by simp
  with trace_report [of ?r ?w] show ?thesis by auto
qed

lemma run_trace_works:
  assumes "sh ''powershell ./build.ps1'' fs0 = (0, g)" and "stderr con = Works"
    and "fst (run sh con fs0) = Inl e"
  shows "Traceback e \<in> set (trace (snd (run sh con fs0)))"
proof -
  let ?r = "outcome_of g (not_found g writes)"
  let ?w = "\<lparr>files = g(''build.zip'' \<mapsto> File (left_of g writes) Usual Plain),
         trace = Exec ''powershell ./build.ps1'' # OpenW ''build.zip''
                   # events_of ''build.zip'' g (made g writes) @ [Close ''build.zip''],
         tty = con, pending = [], lost = False\<rparr>"
  have run: "run sh con fs0 = (?r, report ?r ?w)"
    using run_success [of sh fs0 g con] assms(1) by simp
  with assms(3) have r: "?r = Inl e" by simp
  then have "\<forall>n. e \<noteq> SystemExit n"
    using outcome_no_exit [of g "not_found g writes"] by auto
  with assms(2) have "trace (report (Inl e) ?w) = trace ?w @ [Traceback e]"
    by (intro trace_report_works) simp_all
  with run r show ?thesis by simp
qed

lemma run_not_lost:
  assumes "sh ''powershell ./build.ps1'' fs0 = (0, g)"
    and "fst (run sh con fs0) = Inr () \<or> stderr con = Works"
  shows "\<not> lost (snd (run sh con fs0))"
proof -
  let ?r = "outcome_of g (not_found g writes)"
  let ?w = "\<lparr>files = g(''build.zip'' \<mapsto> File (left_of g writes) Usual Plain),
         trace = Exec ''powershell ./build.ps1'' # OpenW ''build.zip''
                   # events_of ''build.zip'' g (made g writes) @ [Close ''build.zip''],
         tty = con, pending = [], lost = False\<rparr>"
  have run: "run sh con fs0 = (?r, report ?r ?w)"
    using run_success [of sh fs0 g con] assms(1) by simp
  from assms(2) show ?thesis
  proof
    assume "fst (run sh con fs0) = Inr ()"
    with run have "?r = Inr ()" by simp
    with run show ?thesis by simp
  next
    assume "stderr con = Works"
    then have "lost (report ?r ?w) = lost ?w"
      by (intro lost_report_works) simp
    with run show ?thesis by simp
  qed
qed

lemma status_of_failure: "r \<noteq> Inr () \<Longrightarrow> (\<forall>n. r \<noteq> Inl (SystemExit n)) \<Longrightarrow> status_of r = 1"
  by (cases r rule: status_of.cases) simp_all

lemma run_status:
  assumes "sh ''powershell ./build.ps1'' fs0 = (0, g)" and "fst (run sh con fs0) \<noteq> Inr ()"
  shows "exit_status (run sh con fs0) = (if lost (snd (run sh con fs0)) then 120 else 1)"
proof -
  have "\<forall>n. fst (run sh con fs0) \<noteq> Inl (SystemExit n)"
    using run_outcome [of sh fs0 g con] assms(1) outcome_no_exit [of g "not_found g writes"]
    by simp
  with assms(2) have "status_of (fst (run sh con fs0)) = 1"
    by (intro status_of_failure) simp_all
  then show ?thesis by (simp add: exit_status_def)
qed

lemma set_calls:
  "e \<in> set (calls zn src arc n) \<Longrightarrow> e = Read src \<or> e = Append zn arc \<or> e = Append zn (arc @ ''/'')"
  by (cases "(zn, src, arc, n)" rule: calls.cases) auto

lemma set_events_of:
  "e \<in> set (events_of zn g ws) \<Longrightarrow>
   \<exists>(s, a) \<in> set ws. e = Stat s \<or> e = Read s \<or> e = Append zn a \<or> e = Append zn (a @ ''/'')"
  by (auto simp: events_of_def dest: set_calls)

lemma writes_paths: "(s, a) \<in> set writes \<Longrightarrow> s \<in> artifact_path ` set targets"
  by (auto simp: writes_def)

lemma run_events:
  assumes "sh ''powershell ./build.ps1'' fs0 = (0, g)"
    and "e \<in> set (trace (snd (run sh con fs0)))"
  shows "e = Exec ''powershell ./build.ps1'' \<or> e = OpenW ''build.zip'' \<or> e = Close ''build.zip'' \<or>
         (\<exists>x. e = Traceback x) \<or>
         (\<exists>(s, a) \<in> set (made g writes).
            e = Stat s \<or> e = Read s \<or> e = Append ''build.zip'' a \<or> e = Append ''build.zip'' (a @ ''/''))"
proof -
  from run_trace [of sh fs0 g con, OF assms(1)] assms(2)
  have "e = Exec ''powershell ./build.ps1'' \<or> e = OpenW ''build.zip'' \<or> e = Close ''build.zip'' \<or>
         (\<exists>x. e = Traceback x) \<or> e \<in> set (events_of ''build.zip'' g (made g writes))"
    by auto
  then show ?thesis
    using set_events_of [of e "''build.zip''" g "made g writes"] by blast
qed

text \<open>The run whose build fails.\<close>

lemma run_failed_build:
  assumes "sh ''powershell ./build.ps1'' fs0 = (st, g)" and "st \<noteq> 0"
  shows "files (snd (run sh con fs0)) = g \<and>
         status_of (fst (run sh con fs0)) = 1 \<and>
         ((fst (run sh con fs0) = Inl (SystemExit 1) \<and>
           (trace (snd (run sh con fs0)) = [Exec ''powershell ./build.ps1''] \<or>
            trace (snd (run sh con fs0)) = [Exec ''powershell ./build.ps1'', Print build_failed_msg])) \<or>
          (\<exists>e. fst (run sh con fs0) = Inl e \<and>
             (e = UnicodeEncodeError \<or> (\<exists>x. e = OSError x None)) \<and>
             (trace (snd (run sh con fs0)) = [Exec ''powershell ./build.ps1''] \<or>
              trace (snd (run sh con fs0)) = [Exec ''powershell ./build.ps1'', Traceback e])))"
  using assms
  by (cases "stdout con"; cases "mode con"; cases "stderr con";
      cases "list_all (encodes con) build_failed_msg")
    (simp_all add: run_def build_py_def os_system_def print_def emit_def flush_def)

lemma run_failed_build_works:
  assumes "sh ''powershell ./build.ps1'' fs0 = (st, g)" and "st \<noteq> 0"
    and "stdout con = Works" and "list_all (encodes con) build_failed_msg"
  shows "fst (run sh con fs0) = Inl (SystemExit 1) \<and>
         \<not> lost (snd (run sh con fs0)) \<and>
         trace (snd (run sh con fs0)) = [Exec ''powershell ./build.ps1'', Print build_failed_msg]"
  using assms
  by (cases "mode con")
    (simp_all add: run_def build_py_def os_system_def print_def emit_def flush_def)


section \<open>Further facts about a run and about the concrete inputs\<close>

lemma sh_ok_run: "sh_ok ''powershell ./build.ps1'' g = (0, g)"
  by (simp add: sh_ok_def)

lemma sh_fail_run: "sh_fail ''powershell ./build.ps1'' g = (2, g)"
  by (simp add: sh_fail_def)

lemma exit_status_cases: "exit_status rw = (if lost (snd rw) then 120 else status_of (fst rw))"
  by (simp add: exit_status_def)

lemma stored_storable:
  "storable n \<Longrightarrow>
     (\<exists>d. n = Some (File d Usual Plain) \<and> stored arc n = [(arc, d)]) \<or>
     (n = Some (Dir Usual None) \<and> stored arc n = [(arc @ ''/'', Raw [])])"
  by (cases n rule: storable.cases) simp_all

lemma stored_length: "length (stored arc n) \<le> 1"
  by (cases "(arc, n)" rule: stored.cases) simp_all

lemma stored_name: "e \<in> set (stored arc n) \<Longrightarrow> fst e = arc \<or> fst e = arc @ ''/''"
  by (cases "(arc, n)" rule: stored.cases) auto

lemma packed_entry:
  assumes "t \<in> set (packed g)"
  shows "(\<exists>d. g (artifact_path t) = Some (File d Usual Plain) \<and> entry_of g t = [(entry_path t, d)]) \<or>
         (g (artifact_path t) = Some (Dir Usual None) \<and>
            entry_of g t = [(entry_path t @ ''/'', Raw [])])"
  using stored_storable [OF packed_storable [OF assms]] by (simp add: entry_of_def)

lemma storable_entries_length:
  "\<forall>t \<in> set ts. storable (g (artifact_path t)) \<Longrightarrow> length (concat (map (entry_of g) ts)) = length ts"
proof (induction ts)
  case Nil
  show ?case by simp
next
  case (Cons t ts)
  then have "storable (g (artifact_path t))" by simp
  from stored_storable [OF this, of "entry_path t"] have "length (entry_of g t) = 1"
    by (auto simp: entry_of_def)
  with Cons show ?case by simp
qed

lemma packed_entries_length: "length (concat (map (entry_of g) (packed g))) = length (packed g)"
  using packed_storable by (intro storable_entries_length) blast

lemma archive_after_shape:
  "archive_after g = Damaged \<or>
   (\<exists>extra. archive_after g = Zip (concat (map (entry_of g) (packed g)) @ extra) \<and>
      (extra = [] \<or> (\<exists>t rest. unpacked g = t # rest \<and> extra = entry_of g t)))"
proof (cases "unpacked g")
  case Nil
  then have "packed g = targets" using packed_unpacked [of g] by simp
  with Nil show ?thesis by (simp add: archive_after_def)
next
  case (Cons t rest)
  then show ?thesis by (cases "spoils (g (artifact_path t))") (simp_all add: archive_after_def)
qed

lemma packed_partial:
  "packed fs_partial = [(''x86_64-pc-windows-gnu'', ''sasa.dll''), (''i686-pc-windows-gnu'', ''sasa.dll'')]"
  by (simp add: packed_def targets_def artifact_path_def fs_partial_def)

lemma unpacked_partial:
  "unpacked fs_partial =
     [(''aarch64-linux-android'', ''libsasa.so''), (''armv7-linux-androideabi'', ''libsasa.so''),
      (''aarch64-apple-ios'', ''libsasa.a'')]"
  by (simp add: unpacked_def targets_def artifact_path_def fs_partial_def)

lemma gone_partial: "fs_partial ''./target/aarch64-linux-android/release/libsasa.so'' = None"
  by (simp add: fs_partial_def)

lemma archive_partial:
  "archive_after fs_partial =
     Zip [(''x86_64-pc-windows-gnu/sasa.dll'', Raw [1]), (''i686-pc-windows-gnu/sasa.dll'', Raw [2])]"
proof -
  have "entry_of fs_partial (''x86_64-pc-windows-gnu'', ''sasa.dll'') =
          [(''x86_64-pc-windows-gnu/sasa.dll'', Raw [1])]"
    and "entry_of fs_partial (''i686-pc-windows-gnu'', ''sasa.dll'') =
          [(''i686-pc-windows-gnu/sasa.dll'', Raw [2])]"
    and "entry_of fs_partial (''aarch64-linux-android'', ''libsasa.so'') = []"
    and "spoils (fs_partial (artifact_path (''aarch64-linux-android'', ''libsasa.so''))) = None"
    by (simp_all add: entry_of_def entry_path_def artifact_path_def fs_partial_def)
  then show ?thesis
    by (simp add: archive_after_def unpacked_partial packed_partial)
qed

lemma unstorable_partial: "\<exists>t \<in> set targets. \<not> storable (fs_partial (artifact_path t))"
proof -
  have "(''aarch64-linux-android'', ''libsasa.so'') \<in> set targets"
    by (simp add: targets_def)
  moreover have "\<not> storable (fs_partial (artifact_path (''aarch64-linux-android'', ''libsasa.so'')))"
    by (simp add: artifact_path_def fs_partial_def)
  ultimately show ?thesis by blast
qed

lemma agree_writes:
  assumes "\<forall>t \<in> set targets. g1 (artifact_path t) = g2 (artifact_path t)"
  shows "\<forall>(src, arc) \<in> set writes. g1 src = g2 src"
  using assms by (auto simp: writes_def)

lemma entries_names:
  "\<forall>t \<in> set ts. storable (g (artifact_path t)) \<Longrightarrow>
   list_all2 (\<lambda>n t. n = entry_path t \<or> n = entry_path t @ ''/'')
     (map fst (concat (map (entry_of g) ts))) ts"
proof (induction ts)
  case Nil
  show ?case by simp
next
  case (Cons t ts)
  then have "storable (g (artifact_path t))" by simp
  from stored_storable [OF this, of "entry_path t"] Cons show ?case
    by (auto simp: entry_of_def)
qed

lemma archive_names:
  assumes "archive_after g = Zip es"
  shows "list_all2 (\<lambda>n t. n = entry_path t \<or> n = entry_path t @ ''/'')
           (map fst es) (take (length es) targets)"
proof -
  let ?P = "\<lambda>n t. n = entry_path t \<or> n = entry_path t @ ''/''"
  let ?A = "concat (map (entry_of g) (packed g))"
  have A: "list_all2 ?P (map fst ?A) (packed g)"
    using packed_storable by (intro entries_names) blast
  have lA: "length ?A = length (packed g)" by (rule packed_entries_length)
  from assms archive_after_shape [of g] obtain extra where
    e: "es = ?A @ extra"
    and x: "extra = [] \<or> (\<exists>t rest. unpacked g = t # rest \<and> extra = entry_of g t)"
    by auto
  from x show ?thesis
  proof
    assume "extra = []"
    with e have "es = ?A" by simp
    moreover have "take (length (packed g)) targets = packed g"
      using packed_unpacked [of g] by (metis append_eq_conv_conj)
    ultimately show ?thesis using A lA by simp
  next
    assume "\<exists>t rest. unpacked g = t # rest \<and> extra = entry_of g t"
    then obtain t rest where u: "unpacked g = t # rest" and ex: "extra = entry_of g t" by blast
    have tg: "targets = packed g @ t # rest" using packed_unpacked [of g] u by simp
    show ?thesis
    proof (cases extra)
      case Nil
      with e have "es = ?A" by simp
      moreover have "take (length (packed g)) targets = packed g"
        by (subst tg) simp
      ultimately show ?thesis using A lA by simp
    next
      case (Cons b bs)
      have "length extra \<le> 1"
        using stored_length [of "entry_path t" "g (artifact_path t)"] by (simp add: ex entry_of_def)
      with Cons have bs: "bs = []" by simp
      from Cons ex stored_name [of b "entry_path t" "g (artifact_path t)"]
      have b: "?P (fst b) t" by (simp add: entry_of_def)
      have "take (length es) targets = packed g @ [t]"
        by (subst tg) (simp add: e Cons bs lA)
      moreover have "list_all2 ?P (map fst es) (packed g @ [t])"
        using A b by (simp add: e Cons bs list_all2_appendI)
      ultimately show ?thesis by simp
    qed
  qed
qed

lemma stages_from_packaging:
  "\<forall>e \<in> set es. read_path e \<noteq> None \<or> written_path e \<noteq> None \<or> (\<exists>x. e = Traceback x) \<Longrightarrow>
   set (stages_from True es) \<subseteq> {PACKAGING}"
proof (induction es)
  case Nil
  show ?case by simp
next
  case (Cons e es)
  then show ?case by (cases e) simp_all
qed

lemma remdups_adj_run:
  "set xs \<subseteq> {a} \<Longrightarrow> a \<noteq> b \<Longrightarrow> remdups_adj (a # xs @ [b]) = [a, b]"
  by (induction xs) simp_all

lemma last_run: "set xs \<subseteq> {a} \<Longrightarrow> last (a # xs) = a"
  by (induction xs) auto

lemma events_packaging:
  assumes "e \<in> set (events_of zn g ws)"
  shows "read_path e \<noteq> None \<or> written_path e \<noteq> None"
  using set_events_of [OF assms] by auto

lemma stages_success:
  assumes "sh ''powershell ./build.ps1'' fs0 = (0, g)"
  shows "stages (run sh con fs0) =
           [START, BUILDING, PACKAGING, if unpacked g = [] then DONE else PACKAGE_FAILED]"
proof -
  from run_trace [of sh fs0 g con, OF assms] obtain tb where
    tr: "trace (snd (run sh con fs0)) =
           Exec ''powershell ./build.ps1'' # OpenW ''build.zip''
             # events_of ''build.zip'' g (made g writes) @ Close ''build.zip'' # tb"
    and tb: "tb = [] \<or> (\<exists>e. tb = [Traceback e])"
    by blast
  let ?rest = "events_of ''build.zip'' g (made g writes) @ Close ''build.zip'' # tb"
  let ?xs = "stages_from True ?rest"
  have "\<forall>e \<in> set ?rest. read_path e \<noteq> None \<or> written_path e \<noteq> None \<or> (\<exists>x. e = Traceback x)"
    using events_packaging [of _ "''build.zip''" g "made g writes"] tb by auto
  then have p: "set ?xs \<subseteq> {PACKAGING}"
    by (rule stages_from_packaging)
  have ss: "START # stages_from False (trace (snd (run sh con fs0))) =
              START # BUILDING # PACKAGING # ?xs"
    unfolding tr by simp
  have la: "last (START # BUILDING # PACKAGING # ?xs) = PACKAGING"
    using last_run [OF p] by simp
  have out: "fst (run sh con fs0) = Inr () \<longleftrightarrow> unpacked g = []"
  proof (cases "unpacked g")
    case Nil
    then show ?thesis
      using run_outcome_targets [of sh fs0 g con, OF assms] by (simp add: outcome_def)
  next
    case (Cons t rest)
    from unpacked_first [OF this] obtain e where "raised (artifact_path t) (g (artifact_path t)) = Inl e"
      using not_storable_raised by blast
    with Cons show ?thesis
      using run_outcome_targets [of sh fs0 g con, OF assms] by (simp add: outcome_def)
  qed
  let ?fin = "final_stage PACKAGING (fst (run sh con fs0))"
  have fin: "?fin = (if unpacked g = [] then DONE else PACKAGE_FAILED)"
    using out by (cases "fst (run sh con fs0)") auto
  then have ne: "PACKAGING \<noteq> ?fin" by simp
  have "stages (run sh con fs0) =
          remdups_adj (START # BUILDING # PACKAGING # ?xs @ [?fin])"
    unfolding stages_def Let_def ss la by simp
  also have "\<dots> = START # BUILDING # remdups_adj (PACKAGING # ?xs @ [?fin])"
    by simp
  also have "\<dots> = [START, BUILDING, PACKAGING, ?fin]"
    using remdups_adj_run [OF p ne] by simp
  finally show ?thesis using fin by simp
qed

lemma stages_failed_build:
  assumes "sh ''powershell ./build.ps1'' fs0 = (st, g)" and "st \<noteq> 0"
  shows "stages (run sh con fs0) = [START, BUILDING, BUILD_FAILED]"
  using run_failed_build [of sh fs0 st g con, OF assms]
  by (auto simp: stages_def Let_def)

lemma storable_full: "\<forall>t \<in> set targets. storable (fs_full (artifact_path t))"
  by (simp add: targets_def artifact_path_def fs_full_def)

lemma trace_full_start:
  "take 3 (trace (snd (run sh_ok con_ok fs_full))) =
     [Exec ''powershell ./build.ps1'', OpenW ''build.zip'',
      Stat ''./target/x86_64-pc-windows-gnu/release/sasa.dll'']"
proof -
  have "made fs_full writes \<noteq> []"
    by (simp add: made_def found_def writes_eq fs_full_def)
  then obtain s a ws where m: "made fs_full writes = (s, a) # ws"
    by (cases "made fs_full writes") auto
  have "hd (made fs_full writes) =
          (''./target/x86_64-pc-windows-gnu/release/sasa.dll'', ''x86_64-pc-windows-gnu/sasa.dll'')"
    by (simp add: made_def found_def writes_eq fs_full_def)
  with m have s: "s = ''./target/x86_64-pc-windows-gnu/release/sasa.dll''" by simp
  from run_trace [of sh_ok fs_full fs_full con_ok, OF sh_ok_run] show ?thesis
    by (auto simp: m s events_of_def)
qed


lemma unpacked_full: "unpacked fs_full = []"
  using storable_full by (simp add: unpacked_Nil)


lemma fst_run_full: "fst (run sh_ok con fs_full) = Inr ()"
  using run_outcome_targets [of sh_ok fs_full fs_full con, OF sh_ok_run]
  by (simp add: outcome_def unpacked_full)

lemma fst_run_partial:
  "fst (run sh_ok con fs_partial) =
     Inl (FileNotFoundError ''./target/aarch64-linux-android/release/libsasa.so'')"
proof -
  have "raised (artifact_path (''aarch64-linux-android'', ''libsasa.so''))
          (fs_partial (artifact_path (''aarch64-linux-android'', ''libsasa.so''))) =
        Inl (FileNotFoundError ''./target/aarch64-linux-android/release/libsasa.so'')"
    by (simp add: artifact_path_def fs_partial_def)
  then have "outcome fs_partial =
      Inl (FileNotFoundError ''./target/aarch64-linux-android/release/libsasa.so'')"
    by (simp only: outcome_def unpacked_partial list.case)
  with run_outcome_targets [of sh_ok fs_partial fs_partial con, OF sh_ok_run] show ?thesis
    by simp
qed

lemma zip_run_partial:
  "files (snd (run sh_ok con fs_partial)) ''build.zip'' =
     Some (File (Zip [(''x86_64-pc-windows-gnu/sasa.dll'', Raw [1]),
                      (''i686-pc-windows-gnu/sasa.dll'', Raw [2])]) Usual Plain)"
  using run_archive [of sh_ok fs_partial fs_partial con, OF sh_ok_run]
  by (simp only: archive_partial)



lemma made_partial:
  "made fs_partial writes =
     [(''./target/x86_64-pc-windows-gnu/release/sasa.dll'', ''x86_64-pc-windows-gnu/sasa.dll''),
      (''./target/i686-pc-windows-gnu/release/sasa.dll'', ''i686-pc-windows-gnu/sasa.dll''),
      (''./target/aarch64-linux-android/release/libsasa.so'', ''aarch64-linux-android/libsasa.so'')]"
  by (simp add: made_targets packed_partial unpacked_partial artifact_path_def entry_path_def)

lemma events_partial:
  "events_of ''build.zip'' fs_partial (made fs_partial writes) =
     [Stat ''./target/x86_64-pc-windows-gnu/release/sasa.dll'',
      Read ''./target/x86_64-pc-windows-gnu/release/sasa.dll'',
      Append ''build.zip'' ''x86_64-pc-windows-gnu/sasa.dll'',
      Stat ''./target/i686-pc-windows-gnu/release/sasa.dll'',
      Read ''./target/i686-pc-windows-gnu/release/sasa.dll'',
      Append ''build.zip'' ''i686-pc-windows-gnu/sasa.dll'',
      Stat ''./target/aarch64-linux-android/release/libsasa.so'']"
  unfolding made_partial by (simp add: events_of_def fs_partial_def)

lemma trace_run_partial:
  "trace (snd (run sh_ok con_ok fs_partial)) =
     [Exec ''powershell ./build.ps1'', OpenW ''build.zip'',
      Stat ''./target/x86_64-pc-windows-gnu/release/sasa.dll'',
      Read ''./target/x86_64-pc-windows-gnu/release/sasa.dll'',
      Append ''build.zip'' ''x86_64-pc-windows-gnu/sasa.dll'',
      Stat ''./target/i686-pc-windows-gnu/release/sasa.dll'',
      Read ''./target/i686-pc-windows-gnu/release/sasa.dll'',
      Append ''build.zip'' ''i686-pc-windows-gnu/sasa.dll'',
      Stat ''./target/aarch64-linux-android/release/libsasa.so'',
      Close ''build.zip'',
      Traceback (FileNotFoundError ''./target/aarch64-linux-android/release/libsasa.so'')]"
proof -
  have o: "outcome_of fs_partial (not_found fs_partial writes) =
             Inl (FileNotFoundError ''./target/aarch64-linux-android/release/libsasa.so'')"
    using run_outcome [of sh_ok fs_partial fs_partial con_ok, OF sh_ok_run] fst_run_partial [of con_ok]
    by simp
  show ?thesis
    using run_success [of sh_ok fs_partial fs_partial con_ok, OF sh_ok_run]
    by (simp add: o events_partial con_ok_def emit_def)
qed


lemma run_fails:
  assumes "sh ''powershell ./build.ps1'' fs0 = (0, g)" and "unpacked g = t # rest"
  shows "fst (run sh con fs0) = raised (artifact_path t) (g (artifact_path t)) \<and>
         fst (run sh con fs0) \<noteq> Inr () \<and> exit_status (run sh con fs0) \<noteq> 0"
proof -
  have r: "fst (run sh con fs0) = raised (artifact_path t) (g (artifact_path t))"
    using run_outcome_targets [of sh fs0 g con, OF assms(1)] assms(2) by (simp add: outcome_def)
  from unpacked_first [OF assms(2)] obtain e where "raised (artifact_path t) (g (artifact_path t)) = Inl e"
    using not_storable_raised by blast
  with r have n: "fst (run sh con fs0) \<noteq> Inr ()" by simp
  from run_status [of sh fs0 g con, OF assms(1) n] have "exit_status (run sh con fs0) \<noteq> 0"
    by simp
  with r n show ?thesis by simp
qed

lemma run_succeeds_iff:
  assumes "sh ''powershell ./build.ps1'' fs0 = (0, g)"
  shows "fst (run sh con fs0) = Inr () \<longleftrightarrow> (\<forall>t \<in> set targets. storable (g (artifact_path t)))"
proof (cases "unpacked g")
  case Nil
  then show ?thesis
    using run_outcome_targets [of sh fs0 g con, OF assms] unpacked_Nil [of g]
    by (simp add: outcome_def)
next
  case (Cons t rest)
  then have "\<not> (\<forall>t \<in> set targets. storable (g (artifact_path t)))"
    using unpacked_Nil [of g] by simp
  moreover have "fst (run sh con fs0) \<noteq> Inr ()"
    using run_fails [of sh fs0 g t rest con, OF assms Cons] by blast
  ultimately show ?thesis by simp
qed

lemma failing_entry:
  assumes "\<not> storable n" and "spoils n = None"
  shows "stored arc n = [] \<or>
         (\<exists>d bs e. n = Some (File d Usual (ReadFault bs e)) \<and> stored arc n = [(arc, Raw bs)])"
  using assms by (cases "(arc, n)" rule: raised.cases) auto



lemma plain_entries:
  "\<forall>t \<in> set ts. \<exists>d. g (artifact_path t) = Some (File d Usual Plain) \<Longrightarrow>
   map fst (concat (map (entry_of g) ts)) = map entry_path ts \<and>
   map (Some \<circ> snd) (concat (map (entry_of g) ts)) = map (\<lambda>t. content (g (artifact_path t))) ts"
  by (induction ts) (auto simp: entry_of_def)






lemma plain_full: "\<forall>t \<in> set targets. \<exists>d. fs_full (artifact_path t) = Some (File d Usual Plain)"
  by (simp add: targets_def artifact_path_def fs_full_def)

lemma archive_dir:
  "archive_after fs_dir =
     Zip [(''x86_64-pc-windows-gnu/sasa.dll'', Raw [1]),
          (''i686-pc-windows-gnu/sasa.dll/'', Raw []),
          (''aarch64-linux-android/libsasa.so'', Raw [3, 3]),
          (''armv7-linux-androideabi/libsasa.so'', Raw [4]),
          (''aarch64-apple-ios/libsasa.a'', Raw [5, 0])]"
proof -
  have u: "unpacked fs_dir = []"
    by (simp add: unpacked_def targets_def artifact_path_def fs_dir_def fs_full_def)
  have "concat (map (entry_of fs_dir) targets) =
     [(''x86_64-pc-windows-gnu/sasa.dll'', Raw [1]),
      (''i686-pc-windows-gnu/sasa.dll/'', Raw []),
      (''aarch64-linux-android/libsasa.so'', Raw [3, 3]),
      (''armv7-linux-androideabi/libsasa.so'', Raw [4]),
      (''aarch64-apple-ios/libsasa.a'', Raw [5, 0])]"
    by (simp add: targets_def entry_of_def entry_path_def artifact_path_def fs_dir_def fs_full_def)
  with u show ?thesis by (simp add: archive_after_def)
qed

lemma run_ok_build:
  assumes "fst (run sh con fs0) = Inr ()"
  shows "fst (sh ''powershell ./build.ps1'' fs0) = 0"
proof (rule ccontr)
  assume n: "fst (sh ''powershell ./build.ps1'' fs0) \<noteq> 0"
  obtain st g where s: "sh ''powershell ./build.ps1'' fs0 = (st, g)"
    by (cases "sh ''powershell ./build.ps1'' fs0")
  with n have "st \<noteq> 0" by simp
  from run_failed_build [of sh fs0 st g con, OF s this]
  have "status_of (fst (run sh con fs0)) = 1" by simp
  with assms show False by simp
qed

lemma storable_entries_rel:
  "\<forall>t \<in> set ts. storable (g (artifact_path t)) \<Longrightarrow>
   list_all2 (\<lambda>e t. (\<exists>d. g (artifact_path t) = Some (File d Usual Plain) \<and>
                         e = (fst t @ ''/'' @ snd t, d)) \<or>
                    (g (artifact_path t) = Some (Dir Usual None) \<and>
                         e = (fst t @ ''/'' @ snd t @ ''/'', Raw [])))
     (concat (map (entry_of g) ts)) ts"
proof (induction ts)
  case Nil
  then show ?case by simp
next
  case (Cons t ts)
  then have "storable (g (artifact_path t))" by simp
  then have "(\<exists>d. g (artifact_path t) = Some (File d Usual Plain) \<and>
                entry_of g t = [(fst t @ ''/'' @ snd t, d)]) \<or>
             (g (artifact_path t) = Some (Dir Usual None) \<and>
                entry_of g t = [(fst t @ ''/'' @ snd t @ ''/'', Raw [])])"
    by (cases "g (artifact_path t)" rule: storable.cases)
      (simp_all add: entry_of_def entry_path_def)
  with Cons show ?case by auto
qed

lemma target_no_backslash:
  "t \<in> set targets \<Longrightarrow> CHR 0x5C \<notin> set (fst t @ ''/'' @ snd t @ ''/'')"
  by (auto simp: targets_def)












section \<open>The claims\<close>





text \<open>
  Claim C2. When the external build command returns a status other than zero, the
  script does not go on to packaging: the run fails, with an exit status other than
  zero; no effect of the run reads or writes a file (no artifact is examined, no
  archive is opened), and the filesystem is the one the build command left. When
  standard output works and can encode the message, the script prints its message and
  leaves with \<^verbatim>\<open>exit(1)\<close>: the exit status is 1, and the build command and the message
  are all the effects of the run.
\<close>

theorem build_failure_stops:
  assumes "sh ''powershell ./build.ps1'' fs0 = (st, g)" and "st \<noteq> 0"
  shows "fst (run sh con fs0) \<noteq> Inr () \<and>
         exit_status (run sh con fs0) \<noteq> 0 \<and>
         files (snd (run sh con fs0)) = g \<and>
         (\<forall>e \<in> set (trace (snd (run sh con fs0))). read_path e = None \<and> written_path e = None) \<and>
         (stdout con = Works \<and> list_all (encodes con) build_failed_msg \<longrightarrow>
            fst (run sh con fs0) = Inl (SystemExit 1) \<and>
            exit_status (run sh con fs0) = 1 \<and>
            trace (snd (run sh con fs0)) = [Exec ''powershell ./build.ps1'', Print build_failed_msg])"
proof -
  note f = run_failed_build [of sh fs0 st g con, OF assms]
  from f have r: "fst (run sh con fs0) \<noteq> Inr ()" by auto
  from f have "status_of (fst (run sh con fs0)) = 1" by simp
  then have x: "exit_status (run sh con fs0) \<noteq> 0"
    by (simp add: exit_status_def)
  from f have g: "files (snd (run sh con fs0)) = g" by simp
  from f have e: "\<forall>e \<in> set (trace (snd (run sh con fs0))). read_path e = None \<and> written_path e = None"
    by auto
  have w: "stdout con = Works \<and> list_all (encodes con) build_failed_msg \<longrightarrow>
            fst (run sh con fs0) = Inl (SystemExit 1) \<and>
            exit_status (run sh con fs0) = 1 \<and>
            trace (snd (run sh con fs0)) = [Exec ''powershell ./build.ps1'', Print build_failed_msg]"
    using run_failed_build_works [of sh fs0 st g con, OF assms]
    by (simp add: exit_status_def)
  from r x g e w show ?thesis by (intro conjI) assumption+
qed

theorem build_failure_stops_witness:
  "fst (run sh_fail con_ok fs_full) = Inl (SystemExit 1) \<and>
   exit_status (run sh_fail con_ok fs_full) = 1 \<and>
   files (snd (run sh_fail con_ok fs_full)) = fs_full \<and>
   files (snd (run sh_fail con_ok fs_full)) ''build.zip'' = None \<and>
   trace (snd (run sh_fail con_ok fs_full)) = [Exec ''powershell ./build.ps1'', Print build_failed_msg] \<and>
   fst (run sh_fail con_pipe fs_full) \<noteq> Inr () \<and>
   exit_status (run sh_fail con_pipe fs_full) \<noteq> 0"
proof -
  have n: "fs_full ''build.zip'' = None"
    by (simp add: fs_full_def)
  have ok: "stdout con_ok = Works \<and> list_all (encodes con_ok) build_failed_msg"
    by (simp add: con_ok_def build_failed_msg_def)
  have two: "(2::int) \<noteq> 0" by simp
  show ?thesis
    using build_failure_stops [of sh_fail fs_full 2 fs_full con_ok, OF sh_fail_run two]
      build_failure_stops [of sh_fail fs_full 2 fs_full con_pipe, OF sh_fail_run two] n ok
    by simp
qed


text \<open>
  Claim C3 as stated fails. With the third artifact missing the run aborts, but every
  write went to \<^verbatim>\<open>build.zip\<close> itself, and the partial archive of two entries is what
  the final output path holds.
\<close>

theorem partial_archive_published_counterexample:
  "fs_partial ''./target/aarch64-linux-android/release/libsasa.so'' = None \<and>
   fst (run sh_ok con_ok fs_partial) =
     Inl (FileNotFoundError ''./target/aarch64-linux-android/release/libsasa.so'') \<and>
   files (snd (run sh_ok con_ok fs_partial)) ''build.zip'' =
     Some (File (Zip [(''x86_64-pc-windows-gnu/sasa.dll'', Raw [1]),
                      (''i686-pc-windows-gnu/sasa.dll'', Raw [2])]) Usual Plain) \<and>
   trace (snd (run sh_ok con_ok fs_partial)) =
     [Exec ''powershell ./build.ps1'', OpenW ''build.zip'',
      Stat ''./target/x86_64-pc-windows-gnu/release/sasa.dll'',
      Read ''./target/x86_64-pc-windows-gnu/release/sasa.dll'',
      Append ''build.zip'' ''x86_64-pc-windows-gnu/sasa.dll'',
      Stat ''./target/i686-pc-windows-gnu/release/sasa.dll'',
      Read ''./target/i686-pc-windows-gnu/release/sasa.dll'',
      Append ''build.zip'' ''i686-pc-windows-gnu/sasa.dll'',
      Stat ''./target/aarch64-linux-android/release/libsasa.so'',
      Close ''build.zip'',
      Traceback (FileNotFoundError ''./target/aarch64-linux-android/release/libsasa.so'')]"
  using gone_partial fst_run_partial [of con_ok] zip_run_partial [of con_ok] trace_run_partial
  by (intro conjI) assumption+

text \<open>
  Claim C3, amended. When the build succeeds and one of the \<^verbatim>\<open>zip.write\<close> calls fails,
  be it in examining, opening or reading the artifact or in writing its entry, the run
  stops at the first such call, with the exception of that call and an exit status
  other than zero. The archive has been written in place: every effect that writes,
  writes to \<^verbatim>\<open>build.zip\<close>, and no other path changes, so there is no temporary file and
  no rename. The final output path holds what is left: the entries of the targets
  packed before the failure, one each and in manifest order, followed by what the
  failing call stored, which is nothing, or the bytes delivered before a read error;
  or, when the failure was one of writing into the archive, a file that is no archive.
  In each case fewer targets were packed than the manifest has.
\<close>

theorem partial_archive_at_final_path:
  assumes "sh ''powershell ./build.ps1'' fs0 = (0, g)"
    and "\<exists>t \<in> set targets. \<not> storable (g (artifact_path t))"
  shows "\<exists>t rest. targets = packed g @ t # rest \<and>
           (\<forall>u \<in> set (packed g).
              (\<exists>d. g (artifact_path u) = Some (File d Usual Plain) \<and>
                 entry_of g u = [(entry_path u, d)]) \<or>
              (g (artifact_path u) = Some (Dir Usual None) \<and>
                 entry_of g u = [(entry_path u @ ''/'', Raw [])])) \<and>
           \<not> storable (g (artifact_path t)) \<and>
           fst (run sh con fs0) = raised (artifact_path t) (g (artifact_path t)) \<and>
           fst (run sh con fs0) \<noteq> Inr () \<and>
           exit_status (run sh con fs0) \<noteq> 0 \<and>
           (\<forall>e \<in> set (trace (snd (run sh con fs0))). \<forall>p. written_path e = Some p \<longrightarrow>
              p = ''build.zip'') \<and>
           (\<forall>p. p \<noteq> ''build.zip'' \<longrightarrow> files (snd (run sh con fs0)) p = g p) \<and>
           files (snd (run sh con fs0)) ''build.zip'' =
             Some (File (case spoils (g (artifact_path t)) of
                           None \<Rightarrow> Zip (concat (map (entry_of g) (packed g)) @ entry_of g t)
                         | Some e \<Rightarrow> Damaged) Usual Plain) \<and>
           length (concat (map (entry_of g) (packed g))) = length (packed g) \<and>
           length (packed g) < length targets \<and>
           (spoils (g (artifact_path t)) = None \<longrightarrow>
              entry_of g t = [] \<or>
              (\<exists>d bs e. g (artifact_path t) = Some (File d Usual (ReadFault bs e)) \<and>
                 entry_of g t = [(entry_path t, Raw bs)]))"
proof -
  from assms(2) obtain t rest where u: "unpacked g = t # rest" by (rule unpacked_Cons)
  have tg: "targets = packed g @ t # rest" using packed_unpacked [of g] u by simp
  have ps: "\<forall>u \<in> set (packed g).
              (\<exists>d. g (artifact_path u) = Some (File d Usual Plain) \<and>
                 entry_of g u = [(entry_path u, d)]) \<or>
              (g (artifact_path u) = Some (Dir Usual None) \<and>
                 entry_of g u = [(entry_path u @ ''/'', Raw [])])"
    using packed_entry by blast
  note ns = unpacked_first [OF u]
  note rf = run_fails [of sh fs0 g t rest con, OF assms(1) u]
  from rf have r: "fst (run sh con fs0) = raised (artifact_path t) (g (artifact_path t))"
    and n: "fst (run sh con fs0) \<noteq> Inr ()" and x: "exit_status (run sh con fs0) \<noteq> 0"
    by blast+
  have wr: "\<forall>e \<in> set (trace (snd (run sh con fs0))). \<forall>p. written_path e = Some p \<longrightarrow> p = ''build.zip''"
    using run_events [of sh fs0 g _ con, OF assms(1)] by fastforce
  have fr: "\<forall>p. p \<noteq> ''build.zip'' \<longrightarrow> files (snd (run sh con fs0)) p = g p"
    using run_frame [of sh fs0 g _ con, OF assms(1)] by blast
  have "archive_after g =
          (case spoils (g (artifact_path t)) of
             None \<Rightarrow> Zip (concat (map (entry_of g) (packed g)) @ entry_of g t)
           | Some e \<Rightarrow> Damaged)"
    by (simp add: archive_after_def u)
  with run_archive [of sh fs0 g con, OF assms(1)]
  have f: "files (snd (run sh con fs0)) ''build.zip'' =
             Some (File (case spoils (g (artifact_path t)) of
                           None \<Rightarrow> Zip (concat (map (entry_of g) (packed g)) @ entry_of g t)
                         | Some e \<Rightarrow> Damaged) Usual Plain)"
    by simp
  note l = packed_entries_length [of g]
  have lp: "length (packed g) < length targets" using length_packed [of g] u by simp
  have fe: "spoils (g (artifact_path t)) = None \<longrightarrow>
              entry_of g t = [] \<or>
              (\<exists>d bs e. g (artifact_path t) = Some (File d Usual (ReadFault bs e)) \<and>
                 entry_of g t = [(entry_path t, Raw bs)])"
    using failing_entry [OF ns, of "entry_path t"] by (simp add: entry_of_def)
  from tg ps ns r n x wr fr f l lp fe show ?thesis
    by (intro exI [of _ t] exI [of _ rest] conjI) assumption+
qed

theorem partial_archive_at_final_path_witness:
  "fst (run sh_ok con_ok fs_partial) \<noteq> Inr () \<and>
   exit_status (run sh_ok con_ok fs_partial) \<noteq> 0 \<and>
   files (snd (run sh_ok con_ok fs_partial)) ''./target/aarch64-apple-ios/release/libsasa.a''
     = Some (File (Raw [5, 0]) Usual Plain) \<and>
   (\<exists>t. \<not> storable (fs_partial (artifact_path t)) \<and>
      files (snd (run sh_ok con_ok fs_partial)) ''build.zip'' =
        Some (File (case spoils (fs_partial (artifact_path t)) of
                      None \<Rightarrow> Zip (concat (map (entry_of fs_partial) (packed fs_partial))
                                      @ entry_of fs_partial t)
                    | Some e \<Rightarrow> Damaged) Usual Plain))"
proof -
  from partial_archive_at_final_path [of sh_ok fs_partial fs_partial con_ok, OF sh_ok_run unstorable_partial]
  obtain t where ns: "\<not> storable (fs_partial (artifact_path t))"
    and n: "fst (run sh_ok con_ok fs_partial) \<noteq> Inr ()"
    and x: "exit_status (run sh_ok con_ok fs_partial) \<noteq> 0"
    and fr: "\<forall>p. p \<noteq> ''build.zip'' \<longrightarrow> files (snd (run sh_ok con_ok fs_partial)) p = fs_partial p"
    and f: "files (snd (run sh_ok con_ok fs_partial)) ''build.zip'' =
        Some (File (case spoils (fs_partial (artifact_path t)) of
                      None \<Rightarrow> Zip (concat (map (entry_of fs_partial) (packed fs_partial))
                                      @ entry_of fs_partial t)
                    | Some e \<Rightarrow> Damaged) Usual Plain)"
    by (elim exE conjE) (rule that)
  from fr have a: "files (snd (run sh_ok con_ok fs_partial)) ''./target/aarch64-apple-ios/release/libsasa.a''
     = Some (File (Raw [5, 0]) Usual Plain)"
    by (simp add: fs_partial_def)
  from ns f have "\<exists>t. \<not> storable (fs_partial (artifact_path t)) \<and>
      files (snd (run sh_ok con_ok fs_partial)) ''build.zip'' =
        Some (File (case spoils (fs_partial (artifact_path t)) of
                      None \<Rightarrow> Zip (concat (map (entry_of fs_partial) (packed fs_partial))
                                      @ entry_of fs_partial t)
                    | Some e \<Rightarrow> Damaged) Usual Plain)"
    by (intro exI [of _ t] conjI) assumption+
  with n x a show ?thesis by (intro conjI) assumption+
qed






text \<open>
  Claim C5. Two runs whose builds succeed and leave the same nodes at the five artifact
  paths (whatever else differs in their filesystems and their consoles) end the same
  way and leave the same content at \<^verbatim>\<open>build.zip\<close>, entry by entry. When that content is
  an archive, its entries follow the manifest: the entry at each position bears the
  name \<^verbatim>\<open><triple>/<name>\<close> of the target at that position (followed by a slash when
  the artifact is a directory), so the order is the order of the script and depends on
  nothing the filesystem enumerates.
\<close>

theorem archive_order_deterministic:
  assumes "sh1 ''powershell ./build.ps1'' fs1 = (0, g1)"
    and "sh2 ''powershell ./build.ps1'' fs2 = (0, g2)"
    and "\<forall>t \<in> set targets. g1 (artifact_path t) = g2 (artifact_path t)"
  shows "fst (run sh1 con1 fs1) = fst (run sh2 con2 fs2) \<and>
         files (snd (run sh1 con1 fs1)) ''build.zip'' = files (snd (run sh2 con2 fs2)) ''build.zip'' \<and>
         (\<exists>d. files (snd (run sh1 con1 fs1)) ''build.zip'' = Some (File d Usual Plain) \<and>
            (\<forall>es. d = Zip es \<longrightarrow>
               list_all2 (\<lambda>n t. n = entry_path t \<or> n = entry_path t @ ''/'')
                 (map fst es) (take (length es) targets)))"
proof -
  note a = agree_writes [OF assms(3)]
  have r: "fst (run sh1 con1 fs1) = fst (run sh2 con2 fs2)"
    using run_outcome [of sh1 fs1 g1 con1, OF assms(1)] run_outcome [of sh2 fs2 g2 con2, OF assms(2)]
      rest_outcome_cong [OF a]
    by simp
  have "left_of g1 writes = left_of g2 writes" using a by (rule left_of_cong)
  then have l: "archive_after g1 = archive_after g2" by (simp add: left_targets)
  have f: "files (snd (run sh1 con1 fs1)) ''build.zip'' = files (snd (run sh2 con2 fs2)) ''build.zip''"
    using run_archive [of sh1 fs1 g1 con1, OF assms(1)] run_archive [of sh2 fs2 g2 con2, OF assms(2)] l
    by simp
  have o: "\<forall>es. archive_after g1 = Zip es \<longrightarrow>
               list_all2 (\<lambda>n t. n = entry_path t \<or> n = entry_path t @ ''/'')
                 (map fst es) (take (length es) targets)"
    using archive_names by blast
  have "\<exists>d. files (snd (run sh1 con1 fs1)) ''build.zip'' = Some (File d Usual Plain) \<and>
            (\<forall>es. d = Zip es \<longrightarrow>
               list_all2 (\<lambda>n t. n = entry_path t \<or> n = entry_path t @ ''/'')
                 (map fst es) (take (length es) targets))"
    using run_archive [of sh1 fs1 g1 con1, OF assms(1)] o
    by (intro exI [of _ "archive_after g1"] conjI) assumption+
  with r f show ?thesis by (intro conjI) assumption+
qed

theorem archive_order_deterministic_witness:
  "fs_full ''build.zip'' \<noteq> fs_full_old ''build.zip'' \<and>
   fst (run sh_ok con_ok fs_full) = fst (run sh_ok con_pipe fs_full_old) \<and>
   files (snd (run sh_ok con_ok fs_full)) ''build.zip'' =
     files (snd (run sh_ok con_pipe fs_full_old)) ''build.zip''"
proof -
  have a: "\<forall>t \<in> set targets. fs_full (artifact_path t) = fs_full_old (artifact_path t)"
    by (simp add: targets_def artifact_path_def fs_full_old_def)
  have d: "fs_full ''build.zip'' \<noteq> fs_full_old ''build.zip''"
    by (simp add: fs_full_def fs_full_old_def)
  from archive_order_deterministic
    [of sh_ok fs_full fs_full sh_ok fs_full_old fs_full_old con_ok con_pipe, OF sh_ok_run sh_ok_run a] d
  show ?thesis by simp
qed


text \<open>
  Claim C6 as stated fails. With a directory at the path of the second artifact the run
  succeeds, and the second entry of the archive is named
  \<^verbatim>\<open>i686-pc-windows-gnu/sasa.dll/\<close> and holds nothing: it is no shared library, and its
  name is not of the form \<^verbatim>\<open><triple>/<filename>\<close>.
\<close>

theorem directory_artifact_counterexample:
  "fs_dir ''./target/i686-pc-windows-gnu/release/sasa.dll'' = Some (Dir Usual None) \<and>
   fst (run sh_ok con_ok fs_dir) = Inr () \<and>
   exit_status (run sh_ok con_ok fs_dir) = 0 \<and>
   files (snd (run sh_ok con_ok fs_dir)) ''build.zip'' =
     Some (File (Zip [(''x86_64-pc-windows-gnu/sasa.dll'', Raw [1]),
                      (''i686-pc-windows-gnu/sasa.dll/'', Raw []),
                      (''aarch64-linux-android/libsasa.so'', Raw [3, 3]),
                      (''armv7-linux-androideabi/libsasa.so'', Raw [4]),
                      (''aarch64-apple-ios/libsasa.a'', Raw [5, 0])]) Usual Plain)"
proof -
  have d: "fs_dir ''./target/i686-pc-windows-gnu/release/sasa.dll'' = Some (Dir Usual None)"
    by (simp add: fs_dir_def)
  have "\<forall>t \<in> set targets. storable (fs_dir (artifact_path t))"
    by (simp add: targets_def artifact_path_def fs_dir_def fs_full_def)
  then have ok: "fst (run sh_ok con_ok fs_dir) = Inr ()"
    using run_succeeds_iff [of sh_ok fs_dir fs_dir con_ok, OF sh_ok_run] by simp
  have x: "exit_status (run sh_ok con_ok fs_dir) = 0"
    using run_not_lost [of sh_ok fs_dir fs_dir con_ok, OF sh_ok_run] ok
    by (simp add: exit_status_def)
  have f: "files (snd (run sh_ok con_ok fs_dir)) ''build.zip'' =
     Some (File (Zip [(''x86_64-pc-windows-gnu/sasa.dll'', Raw [1]),
                      (''i686-pc-windows-gnu/sasa.dll/'', Raw []),
                      (''aarch64-linux-android/libsasa.so'', Raw [3, 3]),
                      (''armv7-linux-androideabi/libsasa.so'', Raw [4]),
                      (''aarch64-apple-ios/libsasa.a'', Raw [5, 0])]) Usual Plain)"
    using run_archive [of sh_ok fs_dir fs_dir con_ok, OF sh_ok_run]
    by (simp only: archive_dir)
  from d ok x f show ?thesis by (intro conjI) assumption+
qed

text \<open>
  Claim C6, amended. A successful run is one whose build returned status zero; its exit
  status is zero, and it leaves at \<^verbatim>\<open>build.zip\<close>, a path with no directory part and the
  only path the run writes to, an archive of exactly five entries, one per target in
  the order of the script: \<^verbatim>\<open>sasa.dll\<close> for the two Windows triples, \<^verbatim>\<open>libsasa.so\<close> for
  the two Android triples and \<^verbatim>\<open>libsasa.a\<close> for the iOS triple. The entry of a target
  whose path \<^verbatim>\<open>./target/<triple>/release/<name>\<close> holds a regular file is named
  \<^verbatim>\<open><triple>/<name>\<close> and holds the content of the file; the entry of a target whose
  path holds a directory is named \<^verbatim>\<open><triple>/<name>/\<close> and holds nothing. No entry name
  holds a backslash, and when the five artifacts are regular files the names are the
  five names \<^verbatim>\<open><triple>/<name>\<close>.
\<close>

theorem successful_run_archive:
  assumes "fst (run sh con fs0) = Inr ()"
  shows "\<exists>g es. sh ''powershell ./build.ps1'' fs0 = (0, g) \<and>
           exit_status (run sh con fs0) = 0 \<and>
           files (snd (run sh con fs0)) ''build.zip'' = Some (File (Zip es) Usual Plain) \<and>
           (\<forall>e \<in> set (trace (snd (run sh con fs0))). \<forall>p. written_path e = Some p \<longrightarrow>
              p = ''build.zip'') \<and>
           length es = 5 \<and>
           list_all2 (\<lambda>e t. (\<exists>d. g (''./target/'' @ fst t @ ''/release/'' @ snd t)
                                     = Some (File d Usual Plain) \<and>
                                 e = (fst t @ ''/'' @ snd t, d)) \<or>
                            (g (''./target/'' @ fst t @ ''/release/'' @ snd t)
                                     = Some (Dir Usual None) \<and>
                                 e = (fst t @ ''/'' @ snd t @ ''/'', Raw [])))
             es [(''x86_64-pc-windows-gnu'', ''sasa.dll''),
                 (''i686-pc-windows-gnu'', ''sasa.dll''),
                 (''aarch64-linux-android'', ''libsasa.so''),
                 (''armv7-linux-androideabi'', ''libsasa.so''),
                 (''aarch64-apple-ios'', ''libsasa.a'')] \<and>
           (\<forall>e \<in> set es. CHR 0x5C \<notin> set (fst e)) \<and>
           ((\<forall>t \<in> set targets. \<exists>d. g (artifact_path t) = Some (File d Usual Plain)) \<longrightarrow>
              map fst es = [''x86_64-pc-windows-gnu/sasa.dll'', ''i686-pc-windows-gnu/sasa.dll'',
                            ''aarch64-linux-android/libsasa.so'',
                            ''armv7-linux-androideabi/libsasa.so'',
                            ''aarch64-apple-ios/libsasa.a''])"
proof -
  obtain st g where s0: "sh ''powershell ./build.ps1'' fs0 = (st, g)"
    by (cases "sh ''powershell ./build.ps1'' fs0")
  with run_ok_build [OF assms] have s: "sh ''powershell ./build.ps1'' fs0 = (0, g)" by simp
  let ?es = "concat (map (entry_of g) targets)"
  have st: "\<forall>t \<in> set targets. storable (g (artifact_path t))"
    using run_succeeds_iff [of sh fs0 g con, OF s] assms by simp
  then have u: "unpacked g = []" by (simp add: unpacked_Nil)
  have x: "exit_status (run sh con fs0) = 0"
    using run_not_lost [of sh fs0 g con, OF s] assms by (simp add: exit_status_def)
  have f: "files (snd (run sh con fs0)) ''build.zip'' = Some (File (Zip ?es) Usual Plain)"
    using run_archive [of sh fs0 g con, OF s] u by (simp add: archive_after_def)
  have wr: "\<forall>e \<in> set (trace (snd (run sh con fs0))). \<forall>p. written_path e = Some p \<longrightarrow> p = ''build.zip''"
    using run_events [of sh fs0 g _ con, OF s] by fastforce
  have len: "length ?es = 5"
    using storable_entries_length [OF st] by (simp add: targets_def)
  from storable_entries_rel [OF st]
  have rel: "list_all2 (\<lambda>e t. (\<exists>d. g (''./target/'' @ fst t @ ''/release/'' @ snd t)
                                     = Some (File d Usual Plain) \<and>
                                 e = (fst t @ ''/'' @ snd t, d)) \<or>
                            (g (''./target/'' @ fst t @ ''/release/'' @ snd t)
                                     = Some (Dir Usual None) \<and>
                                 e = (fst t @ ''/'' @ snd t @ ''/'', Raw [])))
             ?es [(''x86_64-pc-windows-gnu'', ''sasa.dll''),
                 (''i686-pc-windows-gnu'', ''sasa.dll''),
                 (''aarch64-linux-android'', ''libsasa.so''),
                 (''armv7-linux-androideabi'', ''libsasa.so''),
                 (''aarch64-apple-ios'', ''libsasa.a'')]"
    by (simp only: artifact_path_def targets_def)
  have bs: "\<forall>e \<in> set ?es. CHR 0x5C \<notin> set (fst e)"
  proof
    fix e assume "e \<in> set ?es"
    then obtain t where t: "t \<in> set targets" and e: "e \<in> set (entry_of g t)" by auto
    from e have "fst e = entry_path t \<or> fst e = entry_path t @ ''/''"
      unfolding entry_of_def by (rule stored_name)
    with target_no_backslash [OF t] show "CHR 0x5C \<notin> set (fst e)"
      by (auto simp: entry_path_def)
  qed
  have pl: "(\<forall>t \<in> set targets. \<exists>d. g (artifact_path t) = Some (File d Usual Plain)) \<longrightarrow>
              map fst ?es = [''x86_64-pc-windows-gnu/sasa.dll'', ''i686-pc-windows-gnu/sasa.dll'',
                            ''aarch64-linux-android/libsasa.so'',
                            ''armv7-linux-androideabi/libsasa.so'',
                            ''aarch64-apple-ios/libsasa.a'']"
  proof
    assume "\<forall>t \<in> set targets. \<exists>d. g (artifact_path t) = Some (File d Usual Plain)"
    from plain_entries [OF this] have "map fst ?es = map entry_path targets" by simp
    then show "map fst ?es = [''x86_64-pc-windows-gnu/sasa.dll'', ''i686-pc-windows-gnu/sasa.dll'',
                            ''aarch64-linux-android/libsasa.so'',
                            ''armv7-linux-androideabi/libsasa.so'',
                            ''aarch64-apple-ios/libsasa.a'']"
      by (simp add: targets_def entry_path_def)
  qed
  from s x f wr len rel bs pl show ?thesis
    by (intro exI [of _ g] exI [of _ ?es] conjI) assumption+
qed

theorem successful_run_archive_witness:
  "fst (run sh_ok con_ok fs_full) = Inr () \<and>
   exit_status (run sh_ok con_ok fs_full) = 0 \<and>
   (\<exists>es. files (snd (run sh_ok con_ok fs_full)) ''build.zip'' = Some (File (Zip es) Usual Plain) \<and>
      length es = 5 \<and>
      map fst es = [''x86_64-pc-windows-gnu/sasa.dll'', ''i686-pc-windows-gnu/sasa.dll'',
                    ''aarch64-linux-android/libsasa.so'',
                    ''armv7-linux-androideabi/libsasa.so'',
                    ''aarch64-apple-ios/libsasa.a''])"
proof -
  have ok: "fst (run sh_ok con_ok fs_full) = Inr ()" by (rule fst_run_full)
  from successful_run_archive [of sh_ok con_ok fs_full, OF ok]
  obtain g es where s: "sh_ok ''powershell ./build.ps1'' fs_full = (0, g)"
    and x: "exit_status (run sh_ok con_ok fs_full) = 0"
    and f: "files (snd (run sh_ok con_ok fs_full)) ''build.zip'' = Some (File (Zip es) Usual Plain)"
    and l: "length es = 5"
    and pl: "(\<forall>t \<in> set targets. \<exists>d. g (artifact_path t) = Some (File d Usual Plain)) \<longrightarrow>
              map fst es = [''x86_64-pc-windows-gnu/sasa.dll'', ''i686-pc-windows-gnu/sasa.dll'',
                            ''aarch64-linux-android/libsasa.so'',
                            ''armv7-linux-androideabi/libsasa.so'',
                            ''aarch64-apple-ios/libsasa.a'']"
    by (elim exE conjE) (rule that)
  from s have "g = fs_full" by (simp add: sh_ok_def)
  with pl plain_full have n: "map fst es = [''x86_64-pc-windows-gnu/sasa.dll'', ''i686-pc-windows-gnu/sasa.dll'',
                            ''aarch64-linux-android/libsasa.so'',
                            ''armv7-linux-androideabi/libsasa.so'',
                            ''aarch64-apple-ios/libsasa.a'']"
    by simp
  have "\<exists>es. files (snd (run sh_ok con_ok fs_full)) ''build.zip'' = Some (File (Zip es) Usual Plain) \<and>
      length es = 5 \<and>
      map fst es = [''x86_64-pc-windows-gnu/sasa.dll'', ''i686-pc-windows-gnu/sasa.dll'',
                    ''aarch64-linux-android/libsasa.so'',
                    ''armv7-linux-androideabi/libsasa.so'',
                    ''aarch64-apple-ios/libsasa.a'']"
    using f l n by (intro exI [of _ es] conjI) assumption+
  with ok x show ?thesis by (intro conjI) assumption+
qed


text \<open>
  Claim C7 as stated fails. No run has a validation stage: when the build succeeds the
  next effect is the opening of the archive, and the first artifact is examined only
  after it, so a missing artifact ends the run in \<open>PACKAGE_FAILED\<close>, not in
  \<open>VALIDATION_FAILED\<close>.
\<close>

theorem no_validation_stage_counterexample:
  "stages (run sh_ok con_ok fs_partial) = [START, BUILDING, PACKAGING, PACKAGE_FAILED] \<and>
   stages (run sh_ok con_ok fs_full) = [START, BUILDING, PACKAGING, DONE] \<and>
   VALIDATING \<notin> set (stages (run sh_ok con_ok fs_full)) \<and>
   take 3 (trace (snd (run sh_ok con_ok fs_full))) =
     [Exec ''powershell ./build.ps1'', OpenW ''build.zip'',
      Stat ''./target/x86_64-pc-windows-gnu/release/sasa.dll'']"
proof -
  have "unpacked fs_full = []" using storable_full by (simp add: unpacked_Nil)
  then show ?thesis
    using stages_success [of sh_ok fs_partial fs_partial con_ok, OF sh_ok_run]
      stages_success [of sh_ok fs_full fs_full con_ok, OF sh_ok_run] trace_full_start
    by (simp add: unpacked_partial)
qed

text \<open>
  Claim C7, amended. Every run follows \<open>START\<close>, \<open>BUILDING\<close>, then \<open>BUILD_FAILED\<close>
  when the status of the build is not zero, and otherwise \<open>PACKAGING\<close> followed by
  \<open>DONE\<close> when each of the five \<^verbatim>\<open>zip.write\<close> calls returns and by \<open>PACKAGE_FAILED\<close>
  when one of them raises. The stages are strictly sequential, there is no validation
  stage, and packaging begins only after a build that returned status zero.
\<close>

theorem pipeline_stages:
  assumes "sh ''powershell ./build.ps1'' fs0 = (st, g)"
  shows "stages (run sh con fs0) =
           (if st \<noteq> 0 then [START, BUILDING, BUILD_FAILED]
            else if \<forall>t \<in> set targets. storable (g (artifact_path t))
              then [START, BUILDING, PACKAGING, DONE]
              else [START, BUILDING, PACKAGING, PACKAGE_FAILED])"
proof (cases "st = 0")
  case False
  with stages_failed_build [of sh fs0 st g con, OF assms] show ?thesis by simp
next
  case True
  with assms have "sh ''powershell ./build.ps1'' fs0 = (0, g)" by simp
  from stages_success [of sh fs0 g con, OF this] True show ?thesis
    by (simp add: unpacked_Nil)
qed

theorem pipeline_stages_witness:
  "stages (run sh_fail con_ok fs_full) = [START, BUILDING, BUILD_FAILED] \<and>
   stages (run sh_fail con_ascii fs_full) = [START, BUILDING, BUILD_FAILED] \<and>
   stages (run sh_ok con_ok fs_full) = [START, BUILDING, PACKAGING, DONE] \<and>
   stages (run sh_ok con_ok fs_partial) = [START, BUILDING, PACKAGING, PACKAGE_FAILED]"
proof -
  have b: "\<not> (\<forall>t \<in> set targets. storable (fs_partial (artifact_path t)))"
    using unstorable_partial by blast
  show ?thesis
    using pipeline_stages [of sh_fail fs_full 2 fs_full con_ok, OF sh_fail_run]
      pipeline_stages [of sh_fail fs_full 2 fs_full con_ascii, OF sh_fail_run]
      pipeline_stages [of sh_ok fs_full 0 fs_full con_ok, OF sh_ok_run]
      pipeline_stages [of sh_ok fs_partial 0 fs_partial con_ok, OF sh_ok_run] storable_full b
    by simp
qed









text \<open>
  Claim C10. Whatever the build command returns, the script leaves every path other
  than \<^verbatim>\<open>build.zip\<close> as the build command left it, the five artifacts among them; every
  effect that writes, writes to \<^verbatim>\<open>build.zip\<close>; and every effect that reads, reads one of
  the five artifact paths.
\<close>

theorem only_archive_modified:
  assumes "sh ''powershell ./build.ps1'' fs0 = (st, g)"
  shows "(\<forall>p. p \<noteq> ''build.zip'' \<longrightarrow> files (snd (run sh con fs0)) p = g p) \<and>
         (\<forall>t \<in> set targets. files (snd (run sh con fs0)) (artifact_path t) = g (artifact_path t)) \<and>
         (\<forall>e \<in> set (trace (snd (run sh con fs0))). \<forall>p. written_path e = Some p \<longrightarrow> p = ''build.zip'') \<and>
         (\<forall>e \<in> set (trace (snd (run sh con fs0))). \<forall>p. read_path e = Some p \<longrightarrow>
             p \<in> artifact_path ` set targets)"
proof -
  let ?w = "snd (run sh con fs0)"
  have art: "\<forall>t \<in> set targets. artifact_path t \<noteq> ''build.zip''"
    by (simp add: targets_def artifact_path_def)
  show ?thesis
  proof (cases "st = 0")
    case False
    note f = run_failed_build [of sh fs0 st g con, OF assms False]
    from f have "files ?w = g" by simp
    moreover from f have "\<forall>e \<in> set (trace ?w). read_path e = None \<and> written_path e = None"
      by auto
    ultimately show ?thesis by simp
  next
    case True
    with assms have h: "sh ''powershell ./build.ps1'' fs0 = (0, g)" by simp
    have frame: "\<forall>p. p \<noteq> ''build.zip'' \<longrightarrow> files ?w p = g p"
      using run_frame [of sh fs0 g _ con, OF h] by blast
    have wr: "\<forall>e \<in> set (trace ?w). \<forall>p. written_path e = Some p \<longrightarrow> p = ''build.zip''"
      using run_events [of sh fs0 g _ con, OF h] by fastforce
    have rd: "\<forall>e \<in> set (trace ?w). \<forall>p. read_path e = Some p \<longrightarrow> p \<in> artifact_path ` set targets"
    proof (intro ballI allI impI)
      fix e p
      assume "e \<in> set (trace ?w)" and r: "read_path e = Some p"
      from run_events [of sh fs0 g e con, OF h this(1)] r
      obtain s a where "(s, a) \<in> set (made g writes)" "p = s"
        by auto
      then have "(p, a) \<in> set writes" using made_subset [of g writes] by auto
      then show "p \<in> artifact_path ` set targets"
        by (rule writes_paths)
    qed
    from frame art wr rd show ?thesis by simp
  qed
qed

theorem only_archive_modified_witness:
  "files (snd (run sh_ok con_ok fs_partial)) ''./target/x86_64-pc-windows-gnu/release/sasa.dll''
     = Some (File (Raw [1]) Usual Plain) \<and>
   files (snd (run sh_ok con_ok fs_partial)) ''./target/aarch64-linux-android/release/libsasa.so''
     = None \<and>
   files (snd (run sh_ok con_ok fs_partial)) ''README.md'' = None"
proof -
  have "\<forall>p. p \<noteq> ''build.zip'' \<longrightarrow> files (snd (run sh_ok con_ok fs_partial)) p = fs_partial p"
    using only_archive_modified [of sh_ok fs_partial 0 fs_partial con_ok] sh_ok_run by blast
  then show ?thesis
    by (simp add: fs_partial_def)
qed

end
